theory Spec2Isabelle
  imports Main "HOL-Library.Word" "HOL-Library.Multiset"
begin

unbundle bit_operations_syntax

section \<open>The node I/O core of Elliptics (library/pool.c)\<close>

text \<open>
  A shallow embedding of the functions of \<^verbatim>\<open>library/pool.c\<close>: the work-pool
  life cycle, the dispatcher, the send loop, the accept path, the admission check and the
  reactor loop. System calls and functions of other translation units enter the model as
  explicit inputs (what the call returned) and leave it as explicit effects (a log of the
  calls made).
\<close>

subsection \<open>C arithmetic and system constants\<close>

text \<open>C integer division truncates towards zero.\<close>

definition c_div :: "int \<Rightarrow> int \<Rightarrow> int" where
  "c_div a b = (if (a < 0) = (b < 0) then \<bar>a\<bar> div \<bar>b\<bar> else - (\<bar>a\<bar> div \<bar>b\<bar>))"

text \<open>The errno values of Linux (asm-generic/errno.h), as the build of the library sees them.\<close>

definition EAGAIN :: int where "EAGAIN = 11"
definition EWOULDBLOCK :: int where "EWOULDBLOCK = EAGAIN"
definition ENOMEM :: int where "ENOMEM = 12"
definition EMFILE :: int where "EMFILE = 24"
definition ECONNABORTED :: int where "ECONNABORTED = 103"
definition ECONNRESET :: int where "ECONNRESET = 104"
definition ENOBUFS :: int where "ENOBUFS = 105"

text \<open>The event bits of sys/epoll.h; \<^verbatim>\<open>epoll_event.events\<close> is a \<^verbatim>\<open>uint32_t\<close>.\<close>

definition EPOLLIN :: "32 word" where "EPOLLIN = 0x001"
definition EPOLLOUT :: "32 word" where "EPOLLOUT = 0x004"
definition EPOLLERR :: "32 word" where "EPOLLERR = 0x008"
definition EPOLLHUP :: "32 word" where "EPOLLHUP = 0x010"

subsection \<open>Shuffling the epoll events\<close>

text \<open>
  \<^verbatim>\<open>dnet_shuffle_epoll_events(evs, size)\<close>. The array is a list, \<^verbatim>\<open>rand()\<close> is the
  function \<open>rnd\<close> from the number of the call to the value returned, \<^verbatim>\<open>RAND_MAX\<close> is a
  parameter. The three copies of the loop body are \<open>tmp = evs[j]; evs[j] = evs[i];
  evs[i] = tmp\<close>. An index outside the array is undefined behaviour in C: the model
  returns \<open>None\<close> there.
\<close>

function dnet_shuffle_loop ::
  "int \<Rightarrow> (nat \<Rightarrow> int) \<Rightarrow> int \<Rightarrow> int \<Rightarrow> 'a list \<Rightarrow> 'a list option" where
  "dnet_shuffle_loop rand_max rnd sz i evs =
     (if i < sz - 1 then
        (let j = i + c_div (rnd (nat i)) (c_div rand_max (sz - i) + 1) in
         if 0 \<le> i \<and> i < int (length evs) \<and> 0 \<le> j \<and> j < int (length evs) then
           (let tmp = evs ! nat j;
                evs1 = evs[nat j := evs ! nat i];
                evs2 = evs1[nat i := tmp]
            in dnet_shuffle_loop rand_max rnd sz (i + 1) evs2)
         else None)
      else Some evs)"
  by pat_completeness auto
termination
  by (relation "measure (\<lambda>(rand_max, rnd, sz, i, evs). nat (sz - i))") auto

declare dnet_shuffle_loop.simps [simp del]

definition dnet_shuffle_epoll_events ::
  "int \<Rightarrow> (nat \<Rightarrow> int) \<Rightarrow> 'a list \<Rightarrow> int \<Rightarrow> 'a list option" where
  "dnet_shuffle_epoll_events rand_max rnd evs sz =
     (if sz < 1 then Some evs else dnet_shuffle_loop rand_max rnd sz 0 evs)"


subsection \<open>Commands and requests\<close>

text \<open>
  Modelled from the spec: \<^verbatim>\<open>enum dnet_commands\<close> and the \<^verbatim>\<open>DNET_FLAGS_*\<close> masks are
  declared in packet.h, which is not among the sources. The opcode is a datatype with the
  members that pool.c names and one constructor for every other value; the flags bitset of
  the header is the set of the flags that are set, so that \<^verbatim>\<open>cmd->flags & DNET_FLAGS_X\<close>
  is \<open>DNET_FLAGS_X \<in> flags cmd\<close>.
\<close>

datatype dnet_commands =
    DNET_CMD_AUTH
  | DNET_CMD_STATUS
  | DNET_CMD_REVERSE_LOOKUP
  | DNET_CMD_JOIN
  | DNET_CMD_ROUTE_LIST
  | DNET_CMD_MONITOR_STAT
  | DNET_CMD_BACKEND_CONTROL
  | DNET_CMD_BACKEND_STATUS
  | DNET_CMD_BULK_READ_NEW
  | DNET_CMD_BULK_REMOVE_NEW
  | DNET_CMD_ITERATOR
  | DNET_CMD_ITERATOR_NEW
  | DNET_CMD_OTHER int

datatype dnet_flag =
    DNET_FLAGS_REPLY
  | DNET_FLAGS_MORE
  | DNET_FLAGS_DESTROY
  | DNET_FLAGS_NOLOCK
  | DNET_FLAGS_DIRECT_BACKEND
  | DNET_FLAGS_TRACE_BIT
  | DNET_FLAGS_OTHER nat

record dnet_id =
  id_bytes :: "8 word list"
  group_id :: "32 word"

record dnet_cmd =
  cmd_id :: dnet_id
  status :: int
  cmd :: dnet_commands
  backend_id :: int
  trace_id :: "64 word"
  flags :: "dnet_flag set"
  cmd_trans :: "64 word"
  cmd_size :: "64 word"

datatype dnet_io_req_type = DNET_IO_REQ_OLD_PROTOCOL | DNET_IO_REQ_TYPED_REQUEST

text \<open>
  An I/O request. \<open>header\<close> is the command the request carries: \<^verbatim>\<open>r->header\<close> for a
  request of the old protocol, what \<^verbatim>\<open>n2_io_req_get_cmd\<close> returns otherwise.
\<close>

record dnet_io_req =
  io_req_type :: dnet_io_req_type
  header :: dnet_cmd
  serialized :: bool
  recv_time :: int

definition dnet_io_req_get_cmd :: "dnet_io_req \<Rightarrow> dnet_cmd" where
  "dnet_io_req_get_cmd r = header r"

text \<open>
  \<^verbatim>\<open>dnet_io_req_set_request_backend_id\<close>: the old protocol writes the header and returns 0;
  for the other requests \<open>n2_err\<close> is what \<^verbatim>\<open>n2_io_req_set_request_backend_id\<close> returns,
  and the header is written when that is 0.
\<close>

definition dnet_io_req_set_request_backend_id ::
  "int \<Rightarrow> dnet_io_req \<Rightarrow> int \<Rightarrow> int \<times> dnet_io_req" where
  "dnet_io_req_set_request_backend_id n2_err r bid =
     (if io_req_type r = DNET_IO_REQ_OLD_PROTOCOL then
        (0, r\<lparr>header := (header r)\<lparr>backend_id := bid\<rparr>\<rparr>)
      else if n2_err = 0 then (0, r\<lparr>header := (header r)\<lparr>backend_id := bid\<rparr>\<rparr>)
      else (n2_err, r))"

subsection \<open>Work pools\<close>

datatype dnet_work_io_mode =
  DNET_WORK_IO_MODE_BLOCKING | DNET_WORK_IO_MODE_NONBLOCKING | DNET_WORK_IO_MODE_LIFO

text \<open>A worker: \<open>tid\<close> is the thread that \<^verbatim>\<open>pthread_create\<close> made for it.\<close>

record dnet_work_io =
  thread_index :: int
  wio_trans :: "64 word"
  joined :: int
  tid :: nat
  reply_list :: "dnet_io_req list"
  request_list :: "dnet_io_req list"

text \<open>
  A pool. \<open>wio_list\<close> is \<open>None\<close> while the pointer is NULL or points to freed memory. The
  request queue of request_queue.cpp is the list of the requests waiting in it.
\<close>

record dnet_work_pool =
  num :: int
  mode :: dnet_work_io_mode
  wio_list :: "dnet_work_io list option"
  request_queue :: "dnet_io_req list"
  pool_id :: string

record dnet_work_pool_place =
  pool :: "dnet_work_pool option"

record dnet_io_pool =
  recv_pool :: dnet_work_pool_place
  recv_pool_nb :: dnet_work_pool_place

text \<open>
  The part of \<^verbatim>\<open>struct dnet_io\<close> that the admission check reads. Modelled from the spec:
  the pools manager (backend code, not among the sources) holds one pair of places for
  every backend, and \<^verbatim>\<open>dnet_io_pools_check\<close> adds every one of them to the two sums.
\<close>

record dnet_io =
  io_pool :: dnet_io_pool
  pools_manager :: "dnet_io_pool list option"

subsection \<open>The admission check\<close>

text \<open>
  Modelled from the spec: \<^verbatim>\<open>dnet_get_pool_queue_size\<close> (request_queue.cpp) is the number of
  requests waiting in the queue of the pool, as a \<^verbatim>\<open>uint64_t\<close>.
\<close>

definition dnet_get_pool_queue_size :: "dnet_work_pool \<Rightarrow> 64 word" where
  "dnet_get_pool_queue_size p = of_nat (length (request_queue p))"

text \<open>
  The two \<^verbatim>\<open>uint64_t\<close> accumulators are passed and returned; \<^verbatim>\<open>*threads_count += pool->num\<close>
  converts the \<^verbatim>\<open>int\<close> to 64 bits.
\<close>

definition dnet_check_work_pool_place ::
  "dnet_work_pool_place \<Rightarrow> 64 word \<times> 64 word \<Rightarrow> 64 word \<times> 64 word" where
  "dnet_check_work_pool_place place acc =
     (case acc of (queue_size, threads_count) \<Rightarrow>
        (case pool place of
           Some p \<Rightarrow> (queue_size + dnet_get_pool_queue_size p, threads_count + word_of_int (num p))
         | None \<Rightarrow> (queue_size, threads_count)))"

definition dnet_check_io_pool :: "dnet_io_pool \<Rightarrow> 64 word \<times> 64 word \<Rightarrow> 64 word \<times> 64 word" where
  "dnet_check_io_pool io acc =
     dnet_check_work_pool_place (recv_pool_nb io) (dnet_check_work_pool_place (recv_pool io) acc)"

fun dnet_io_pools_check :: "dnet_io_pool list \<Rightarrow> 64 word \<times> 64 word \<Rightarrow> 64 word \<times> 64 word" where
  "dnet_io_pools_check [] acc = acc"
| "dnet_io_pools_check (p # ps) acc = dnet_io_pools_check ps (dnet_check_io_pool p acc)"

definition dnet_check_io :: "dnet_io \<Rightarrow> int" where
  "dnet_check_io io =
     (let acc = dnet_check_io_pool (io_pool io) (0, 0);
          acc' = (case pools_manager io of
                    Some pm \<Rightarrow> dnet_io_pools_check pm acc
                  | None \<Rightarrow> acc)
      in case acc' of (queue_size, threads_count) \<Rightarrow>
           if queue_size \<le> threads_count * 1000 then 1 else 0)"

text \<open>
  The sums of the claim, over every place of the node: the two global places first, then
  the places of the pools manager.
\<close>

definition io_places :: "dnet_io \<Rightarrow> dnet_work_pool_place list" where
  "io_places io =
     [recv_pool (io_pool io), recv_pool_nb (io_pool io)]
     @ (case pools_manager io of
          Some pm \<Rightarrow> concat (map (\<lambda>p. [recv_pool p, recv_pool_nb p]) pm)
        | None \<Rightarrow> [])"

definition place_queued :: "dnet_work_pool_place \<Rightarrow> nat" where
  "place_queued place = (case pool place of Some p \<Rightarrow> length (request_queue p) | None \<Rightarrow> 0)"

definition place_threads :: "dnet_work_pool_place \<Rightarrow> int" where
  "place_threads place = (case pool place of Some p \<Rightarrow> num p | None \<Rightarrow> 0)"

definition queued_total :: "dnet_io \<Rightarrow> nat" where
  "queued_total io = sum_list (map place_queued (io_places io))"

definition threads_total :: "dnet_io \<Rightarrow> int" where
  "threads_total io = sum_list (map place_threads (io_places io))"

text \<open>Sample values for the concrete instances below.\<close>

definition example_cmd :: dnet_cmd where
  "example_cmd =
     \<lparr>cmd_id = \<lparr>id_bytes = [], group_id = 1\<rparr>, status = 0, cmd = DNET_CMD_OTHER 5,
      backend_id = 0, trace_id = 0, flags = {}, cmd_trans = 42, cmd_size = 0\<rparr>"

definition example_req :: dnet_io_req where
  "example_req =
     \<lparr>io_req_type = DNET_IO_REQ_OLD_PROTOCOL, header = example_cmd, serialized = False,
      recv_time = 0\<rparr>"

definition example_pool :: "int \<Rightarrow> dnet_io_req list \<Rightarrow> dnet_work_pool" where
  "example_pool n q =
     \<lparr>num = n, mode = DNET_WORK_IO_MODE_BLOCKING, wio_list = None, request_queue = q,
      pool_id = ''sys''\<rparr>"

definition example_io :: "int \<Rightarrow> dnet_io_req list \<Rightarrow> dnet_io" where
  "example_io n q =
     \<lparr>io_pool = \<lparr>recv_pool = \<lparr>pool = Some (example_pool n q)\<rparr>,
                 recv_pool_nb = \<lparr>pool = None\<rparr>\<rparr>,
      pools_manager = Some [\<lparr>recv_pool = \<lparr>pool = None\<rparr>,
                             recv_pool_nb = \<lparr>pool = Some (example_pool 0 [])\<rparr>\<rparr>]\<rparr>"

subsection \<open>Connections and their transactions\<close>

text \<open>
  Modelled from the spec: the transaction entry and the two indices of a connection
  (\<^verbatim>\<open>dnet_trans_search\<close>, \<^verbatim>\<open>dnet_trans_update_timestamp\<close> and
  \<^verbatim>\<open>dnet_trans_remove_timer_nolock\<close> are defined in trans.c, not among the sources). The
  id index maps a transaction id to its entry, the timer index holds the ids that the
  timeout sweep still sees; a reply refreshes the timestamp of its entry from the clock
  and takes the entry out of the timer index only.
\<close>

record dnet_trans =
  trans_no :: "64 word"
  time :: int

record dnet_net_state =
  read_s :: int
  write_s :: int
  accept_s :: int
  rcv_start_ts :: int
  rcv_finish_ts :: int
  send_list :: "dnet_io_req list"
  send_queue_size :: int
  send_offset :: nat
  trans_root :: "64 word \<rightharpoonup> dnet_trans"
  timer_root :: "64 word set"

definition dnet_trans_search :: "dnet_net_state \<Rightarrow> 64 word \<Rightarrow> dnet_trans option" where
  "dnet_trans_search st t = trans_root st t"

definition dnet_trans_update_timestamp :: "int \<Rightarrow> dnet_trans \<Rightarrow> dnet_trans" where
  "dnet_trans_update_timestamp now t = t\<lparr>time := now\<rparr>"

definition dnet_trans_remove_timer_nolock :: "dnet_net_state \<Rightarrow> dnet_trans \<Rightarrow> dnet_net_state" where
  "dnet_trans_remove_timer_nolock st t = st\<lparr>timer_root := timer_root st - {trans_no t}\<rparr>"

subsection \<open>The dispatcher\<close>

definition dnet_cmd_needs_backend :: "dnet_commands \<Rightarrow> int" where
  "dnet_cmd_needs_backend command =
     (case command of
        DNET_CMD_AUTH \<Rightarrow> 0
      | DNET_CMD_STATUS \<Rightarrow> 0
      | DNET_CMD_REVERSE_LOOKUP \<Rightarrow> 0
      | DNET_CMD_JOIN \<Rightarrow> 0
      | DNET_CMD_ROUTE_LIST \<Rightarrow> 0
      | DNET_CMD_MONITOR_STAT \<Rightarrow> 0
      | DNET_CMD_BACKEND_CONTROL \<Rightarrow> 0
      | DNET_CMD_BACKEND_STATUS \<Rightarrow> 0
      | DNET_CMD_BULK_READ_NEW \<Rightarrow> 0
      | DNET_CMD_BULK_REMOVE_NEW \<Rightarrow> 0
      | _ \<Rightarrow> 1)"

datatype dnet_log_level =
  DNET_LOG_DEBUG | DNET_LOG_NOTICE | DNET_LOG_INFO | DNET_LOG_WARNING | DNET_LOG_ERROR

text \<open>
  What the dispatcher does besides computing: the locks it takes and releases and the
  lines it logs, in program order.
\<close>

datatype sched_call =
    TRANS_LOCK
  | TRANS_SEARCH "64 word"
  | TRANS_UNLOCK
  | PLACE_UNLOCK
  | DNET_LOG dnet_log_level string

text \<open>
  \<^verbatim>\<open>dnet_update_trans_timestamp_network\<close>; \<open>now\<close> is the clock that
  \<^verbatim>\<open>dnet_trans_update_timestamp\<close> reads. The entry is updated in place, in the id index.
  The reference that the search takes is dropped by \<^verbatim>\<open>dnet_trans_put\<close> after the unlock;
  reference counts are left out.
\<close>

definition dnet_update_trans_timestamp_network ::
  "int \<Rightarrow> dnet_net_state \<Rightarrow> dnet_io_req \<Rightarrow> dnet_net_state \<times> sched_call list" where
  "dnet_update_trans_timestamp_network now st r =
     (let c = dnet_io_req_get_cmd r in
      if DNET_FLAGS_REPLY \<in> flags c then
        (case dnet_trans_search st (cmd_trans c) of
           Some t \<Rightarrow>
             (let t' = dnet_trans_update_timestamp now t;
                  st' = st\<lparr>trans_root := (trans_root st)(cmd_trans c \<mapsto> t')\<rparr>
              in (dnet_trans_remove_timer_nolock st' t',
                  [TRANS_LOCK, TRANS_SEARCH (cmd_trans c), TRANS_UNLOCK]))
         | None \<Rightarrow> (st, [TRANS_LOCK, TRANS_SEARCH (cmd_trans c), TRANS_UNLOCK]))
      else (st, []))"

text \<open>
  The result of \<^verbatim>\<open>dnet_schedule_io\<close>: the connection, the two arguments of
  \<^verbatim>\<open>dnet_backend_get_place\<close> (the resolved backend id and the class), the request handed
  to \<^verbatim>\<open>dnet_push_request\<close> for the pool of that place (\<open>None\<close> when the function returns
  before the push), and the calls made.
\<close>

record dnet_schedule_io_result =
  res_st :: dnet_net_state
  res_backend_id :: int
  res_nonblocking :: bool
  res_pushed :: "dnet_io_req option"
  res_calls :: "sched_call list"

text \<open>
  \<^verbatim>\<open>dnet_schedule_io(n, r)\<close> for a request \<open>r\<close> of the connection \<open>st\<close>.
  \<open>search_backend\<close> is \<^verbatim>\<open>dnet_state_search_backend(n, _)\<close>, the lookup of a key in the
  routing table (route code, not among the sources); \<open>n2_err\<close> is what
  \<^verbatim>\<open>n2_io_req_set_request_backend_id\<close> would return.
\<close>

definition dnet_schedule_io ::
  "(dnet_id \<Rightarrow> int) \<Rightarrow> int \<Rightarrow> int \<Rightarrow> dnet_net_state \<Rightarrow> dnet_io_req \<Rightarrow> dnet_schedule_io_result" where
  "dnet_schedule_io search_backend n2_err now st r0 =
     (let c = dnet_io_req_get_cmd r0;
          nonblocking = (DNET_FLAGS_NOLOCK \<in> flags c);
          r = r0\<lparr>recv_time := rcv_finish_ts st - rcv_start_ts st\<rparr>;
          log_level = (if cmd c = DNET_CMD_ITERATOR \<or> cmd c = DNET_CMD_ITERATOR_NEW
                       then DNET_LOG_DEBUG else DNET_LOG_INFO);
          recv_log =
            (if cmd_size c > 0 then DNET_LOG log_level ''RECV cmd''
             else if cmd_size c = 0 \<and> DNET_FLAGS_MORE \<notin> flags c \<and> DNET_FLAGS_REPLY \<in> flags c
             then DNET_LOG log_level ''RECV ACK cmd''
             else DNET_LOG log_level ''RECV cmd, reply'');
          (st', trans_calls) = dnet_update_trans_timestamp_network now st r;
          bid = (if DNET_FLAGS_DIRECT_BACKEND \<in> flags c then backend_id c
                 else if dnet_cmd_needs_backend (cmd c) \<noteq> 0 then search_backend (cmd_id c)
                 else - 1)
      in if DNET_FLAGS_REPLY \<notin> flags c then
           (case dnet_io_req_set_request_backend_id n2_err r (if bid \<ge> 0 then bid else - 1) of
              (err, r') \<Rightarrow>
                if err \<noteq> 0 then
                  \<lparr>res_st = st', res_backend_id = bid, res_nonblocking = nonblocking,
                   res_pushed = None,
                   res_calls = recv_log # trans_calls
                     @ [DNET_LOG DNET_LOG_ERROR ''failed to set cmd->backend_id'', PLACE_UNLOCK]\<rparr>
                else
                  \<lparr>res_st = st', res_backend_id = bid, res_nonblocking = nonblocking,
                   res_pushed = Some r',
                   res_calls = recv_log # trans_calls
                     @ [DNET_LOG DNET_LOG_DEBUG ''backend_id'', PLACE_UNLOCK]\<rparr>)
         else
           \<lparr>res_st = st', res_backend_id = bid, res_nonblocking = nonblocking,
            res_pushed = Some r,
            res_calls = recv_log # trans_calls
              @ [DNET_LOG DNET_LOG_DEBUG ''backend_id'', PLACE_UNLOCK]\<rparr>)"

text \<open>
  A sample connection with one transaction outstanding (id 42), and a reply frame for the
  transaction id \<open>t\<close>.
\<close>

definition example_st :: dnet_net_state where
  "example_st =
     \<lparr>read_s = 5, write_s = 6, accept_s = - 1, rcv_start_ts = 10, rcv_finish_ts = 25,
      send_list = [], send_queue_size = 0, send_offset = 0,
      trans_root = [42 \<mapsto> \<lparr>trans_no = 42, time = 100\<rparr>], timer_root = {42}\<rparr>"

definition example_reply :: "64 word \<Rightarrow> dnet_io_req" where
  "example_reply t =
     example_req\<lparr>header := example_cmd\<lparr>flags := {DNET_FLAGS_REPLY}, cmd_trans := t\<rparr>\<rparr>"

subsection \<open>Growing and stopping a pool\<close>

text \<open>
  \<^verbatim>\<open>dnet_work_pool_grow(n, pool, num, process)\<close>. \<open>malloc_ok\<close> says whether
  \<^verbatim>\<open>malloc\<close> returned memory; \<open>create k\<close> is what the call of \<^verbatim>\<open>pthread_create\<close> for the
  worker \<open>k\<close> returns (0 or an error number) and the thread id it stores. The loop
  returns the workers made, or the negated error, the index of the failure and the workers
  initialised so far.
\<close>

function dnet_work_pool_grow_loop ::
  "(nat \<Rightarrow> int \<times> nat) \<Rightarrow> int \<Rightarrow> int \<Rightarrow> dnet_work_io list
     \<Rightarrow> (int \<times> int \<times> dnet_work_io list) + dnet_work_io list" where
  "dnet_work_pool_grow_loop create n i wios =
     (if i < n then
        (case create (nat i) of
           (err, t) \<Rightarrow>
             (let wio = \<lparr>thread_index = i, wio_trans = - 1, joined = 0, tid = t,
                         reply_list = [], request_list = []\<rparr>
              in if err \<noteq> 0 then Inl (- err, i, wios @ [wio])
                 else dnet_work_pool_grow_loop create n (i + 1) (wios @ [wio])))
      else Inr wios)"
  by pat_completeness auto
termination
  by (relation "measure (\<lambda>(create, n, i, wios). nat (n - i))") auto

declare dnet_work_pool_grow_loop.simps [simp del]

datatype pool_log = GREW_POOL int int | FAILED_TO_CREATE_IO_THREAD int

text \<open>
  The result of a call: the value returned, the pool, the threads joined on the error path
  and the line logged. \<^verbatim>\<open>GREW_POOL a b\<close> is the line "Grew pool by: a -> b IO threads".
\<close>

record dnet_work_pool_grow_result =
  grow_err :: int
  grow_pool :: dnet_work_pool
  grow_joins :: "nat list"
  grow_log :: "pool_log list"

definition dnet_work_pool_grow ::
  "bool \<Rightarrow> (nat \<Rightarrow> int \<times> nat) \<Rightarrow> dnet_work_pool \<Rightarrow> int \<Rightarrow> dnet_work_pool_grow_result" where
  "dnet_work_pool_grow malloc_ok create p n =
     (if \<not> malloc_ok then
        \<lparr>grow_err = - ENOMEM, grow_pool = p\<lparr>wio_list := None\<rparr>, grow_joins = [], grow_log = []\<rparr>
      else
        (case dnet_work_pool_grow_loop create n 0 [] of
           Inr wios \<Rightarrow>
             \<lparr>grow_err = 0, grow_pool = p\<lparr>wio_list := Some wios, num := n\<rparr>, grow_joins = [],
              grow_log = [GREW_POOL (num p) (num p + n)]\<rparr>
         | Inl (err, i, wios) \<Rightarrow>
             \<lparr>grow_err = err, grow_pool = p\<lparr>wio_list := None\<rparr>,
              grow_joins = map tid (take (nat i) wios),
              grow_log = [FAILED_TO_CREATE_IO_THREAD err]\<rparr>))"

text \<open>
  \<^verbatim>\<open>dnet_work_pool_stop(place)\<close>, on the place and the list of the threads that
  \<^verbatim>\<open>pthread_join\<close> has been called for so far. Reading through a NULL pool or worker list,
  or beyond the list, is undefined behaviour: \<open>None\<close>.
\<close>

function dnet_work_pool_stop_loop ::
  "int \<Rightarrow> int \<Rightarrow> dnet_work_io list option \<Rightarrow> nat list
     \<Rightarrow> (dnet_work_io list option \<times> nat list) option" where
  "dnet_work_pool_stop_loop n i wios joins =
     (if i < n then
        (case wios of
           None \<Rightarrow> None
         | Some ws \<Rightarrow>
             if 0 \<le> i \<and> i < int (length ws) then
               (let wio = ws ! nat i in
                if joined wio = 0 then
                  dnet_work_pool_stop_loop n (i + 1)
                    (Some (ws[nat i := wio\<lparr>joined := 1\<rparr>])) (joins @ [tid wio])
                else dnet_work_pool_stop_loop n (i + 1) wios joins)
             else None)
      else Some (wios, joins))"
  by pat_completeness auto
termination
  by (relation "measure (\<lambda>(n, i, wios, joins). nat (n - i))") auto

declare dnet_work_pool_stop_loop.simps [simp del]

definition dnet_work_pool_stop ::
  "dnet_work_pool_place \<times> nat list \<Rightarrow> (dnet_work_pool_place \<times> nat list) option" where
  "dnet_work_pool_stop s =
     (case s of (place, joins) \<Rightarrow>
        (case pool place of
           None \<Rightarrow> None
         | Some p \<Rightarrow>
             (case dnet_work_pool_stop_loop (num p) 0 (wio_list p) joins of
                None \<Rightarrow> None
              | Some (wios, joins') \<Rightarrow>
                  Some (place\<lparr>pool := Some (p\<lparr>wio_list := wios\<rparr>)\<rparr>, joins'))))"

text \<open>\<open>k\<close> calls of \<^verbatim>\<open>dnet_work_pool_stop\<close> on the same place, one after the other.\<close>

fun dnet_work_pool_stop_times ::
  "nat \<Rightarrow> dnet_work_pool_place \<times> nat list \<Rightarrow> (dnet_work_pool_place \<times> nat list) option" where
  "dnet_work_pool_stop_times 0 s = Some s"
| "dnet_work_pool_stop_times (Suc k) s =
     (case dnet_work_pool_stop s of
        None \<Rightarrow> None
      | Some s' \<Rightarrow> dnet_work_pool_stop_times k s')"

text \<open>The workers of a place.\<close>

definition place_workers :: "dnet_work_pool_place \<Rightarrow> dnet_work_io list" where
  "place_workers place =
     (case pool place of
        None \<Rightarrow> []
      | Some p \<Rightarrow> (case wio_list p of None \<Rightarrow> [] | Some ws \<Rightarrow> ws))"

text \<open>A sample worker with the thread \<open>t\<close>.\<close>

definition example_wio :: "int \<Rightarrow> nat \<Rightarrow> dnet_work_io" where
  "example_wio i t =
     \<lparr>thread_index = i, wio_trans = - 1, joined = 0, tid = t, reply_list = [], request_list = []\<rparr>"

text \<open>What one call of \<^verbatim>\<open>dnet_work_pool_stop\<close> does to a worker.\<close>

definition mark_joined :: "dnet_work_io \<Rightarrow> dnet_work_io" where
  "mark_joined w = (if joined w = 0 then w\<lparr>joined := 1\<rparr> else w)"

subsection \<open>The send loop\<close>

text \<open>
  What \<^verbatim>\<open>dnet_process_send_single\<close> does besides updating the connection, in program
  order. \<open>LOW_WATERMARK_BROADCAST c\<close> is the body of the low-watermark branch: the debug
  line with the count \<open>c\<close> and the \<^verbatim>\<open>pthread_cond_broadcast\<close> on \<^verbatim>\<open>send_wait\<close> after it;
  \<open>EXIT_BROADCAST\<close> is the broadcast on \<^verbatim>\<open>send_wait\<close> at \<^verbatim>\<open>err_out_exit\<close>.
\<close>

datatype send_call =
    EPOLL_CTL_DEL int
  | SEND_REQUEST dnet_io_req
  | OUTPUT_STATS_DECREASE
  | LOW_WATERMARK_BROADCAST int
  | IO_REQ_FREE dnet_io_req
  | LOG_SEND_LIMIT "32 word"
  | EXIT_BROADCAST

definition dnet_unschedule_send :: "dnet_net_state \<Rightarrow> send_call list" where
  "dnet_unschedule_send st = (if write_s st \<ge> 0 then [EPOLL_CTL_DEL (write_s st)] else [])"

text \<open>
  The \<^verbatim>\<open>while (1)\<close> loop. \<open>send k\<close> is what the send of the attempt \<open>k\<close> of this call
  (\<^verbatim>\<open>n2_send_request\<close> or \<^verbatim>\<open>dnet_send_request\<close>, neither among the sources) returns, and
  the \<^verbatim>\<open>send_offset\<close> it leaves; \<open>send_limit\<close> is \<^verbatim>\<open>st->n->send_limit\<close>, which the
  comparison with the \<^verbatim>\<open>uint32_t\<close> counter reads as 32 bits unsigned, and \<open>low\<close> is
  \<^verbatim>\<open>DNET_SEND_WATERMARK_LOW\<close> (defined in elliptics.h, not among the sources).
  Requests that other threads append to the queue during the call are left out.
  Modelled from the spec: \<^verbatim>\<open>atomic_dec\<close> decrements the counter and returns the new
  value. The loop returns \<open>err\<close> at its exit, the connection and the calls made.
\<close>

function dnet_process_send_loop ::
  "(nat \<Rightarrow> int \<times> nat) \<Rightarrow> 32 word \<Rightarrow> int \<Rightarrow> nat \<Rightarrow> 32 word \<Rightarrow> dnet_net_state
     \<Rightarrow> int \<times> dnet_net_state \<times> send_call list" where
  "dnet_process_send_loop send send_limit low k counter st =
     (case send_list st of
        [] \<Rightarrow> (- EAGAIN, st, dnet_unschedule_send st)
      | r # rest \<Rightarrow>
          (case send k of
             (err, off) \<Rightarrow>
               if err = 0 then
                 (let st1 = st\<lparr>send_offset := off, send_list := rest\<rparr>;
                      st2 = (if send_queue_size st1 > 0
                             then st1\<lparr>send_queue_size := send_queue_size st1 - 1\<rparr> else st1);
                      wake = (if send_queue_size st1 > 0 \<and> send_queue_size st2 = low
                              then [LOW_WATERMARK_BROADCAST (send_queue_size st2)] else []);
                      st3 = st2\<lparr>send_offset := 0\<rparr>;
                      calls = [SEND_REQUEST r, OUTPUT_STATS_DECREASE] @ wake @ [IO_REQ_FREE r]
                  in if send_limit \<noteq> 0 \<and> counter + 1 \<ge> send_limit then
                       (0, st3, calls @ [LOG_SEND_LIMIT send_limit])
                     else
                       (case dnet_process_send_loop send send_limit low (k + 1)
                               (if send_limit \<noteq> 0 then counter + 1 else counter) st3 of
                          (err', st', calls') \<Rightarrow> (err', st', calls @ calls')))
               else (err, st\<lparr>send_offset := off\<rparr>, [SEND_REQUEST r])))"
  by pat_completeness auto
termination
  by (relation "measure (\<lambda>(send, send_limit, low, k, counter, st). length (send_list st))") auto

declare dnet_process_send_loop.simps [simp del]

definition dnet_process_send_single ::
  "(nat \<Rightarrow> int \<times> nat) \<Rightarrow> 32 word \<Rightarrow> int \<Rightarrow> dnet_net_state
     \<Rightarrow> int \<times> dnet_net_state \<times> send_call list" where
  "dnet_process_send_single send send_limit low st =
     (case dnet_process_send_loop send send_limit low 0 0 st of
        (err, st', calls) \<Rightarrow>
          (err, st',
           calls @ (if err < 0 \<and> send_queue_size st' > 0 then [EXIT_BROADCAST] else [])))"

text \<open>The frames a call has written, dequeued and freed, in order.\<close>

fun freed_of :: "send_call list \<Rightarrow> dnet_io_req list" where
  "freed_of [] = []"
| "freed_of (IO_REQ_FREE r # cs) = r # freed_of cs"
| "freed_of (c # cs) = freed_of cs"

text \<open>
  The connection after the head frame (\<open>rest\<close> is the queue behind it) has been written,
  dequeued and freed, and the calls made for it.
\<close>

definition send_dequeued :: "dnet_net_state \<Rightarrow> dnet_io_req list \<Rightarrow> dnet_net_state" where
  "send_dequeued st rest =
     (if send_queue_size st > 0
      then st\<lparr>send_list := rest, send_queue_size := send_queue_size st - 1, send_offset := 0\<rparr>
      else st\<lparr>send_list := rest, send_offset := 0\<rparr>)"

definition send_dequeue_calls :: "int \<Rightarrow> dnet_net_state \<Rightarrow> dnet_io_req \<Rightarrow> send_call list" where
  "send_dequeue_calls low st r =
     [SEND_REQUEST r, OUTPUT_STATS_DECREASE]
     @ (if send_queue_size st > 0 \<and> send_queue_size st - 1 = low
        then [LOW_WATERMARK_BROADCAST low] else [])
     @ [IO_REQ_FREE r]"

definition example_send_st :: "int \<Rightarrow> dnet_io_req list \<Rightarrow> dnet_net_state" where
  "example_send_st q frames = example_st\<lparr>send_list := frames, send_queue_size := q\<rparr>"

subsection \<open>Accepting a connection\<close>

text \<open>
  What \<^verbatim>\<open>dnet_state_accept_process\<close> meets: the value \<^verbatim>\<open>accept\<close> returns and the
  \<^verbatim>\<open>errno\<close> it leaves, what \<^verbatim>\<open>dnet_socket_local_addr\<close> returns for the new socket, and
  the error of \<^verbatim>\<open>dnet_state_create\<close> when it returns no state (\<open>None\<close> when it returns
  one).
\<close>

record accept_env =
  accept_cs :: int
  accept_errno :: int
  local_addr_err :: int
  state_create_err :: "int option"

text \<open>The function returns to the reactor, or ends the process with \<^verbatim>\<open>exit(err)\<close>.\<close>

datatype accept_result = RETURN int | EXIT int

datatype accept_call =
    ACCEPT_LOG dnet_log_level string
  | SET_SOCKOPT int
  | STATE_PUT

definition dnet_state_accept_process :: "accept_env \<Rightarrow> accept_result \<times> accept_call list" where
  "dnet_state_accept_process env =
     (let cs = accept_cs env in
      if cs < 0 then
        (let err = - accept_errno env in
         if err = - EAGAIN \<or> err = - EWOULDBLOCK then (RETURN err, [])
         else if err = - ECONNABORTED \<or> err = - EMFILE \<or> err = - ENOBUFS \<or> err = - ENOMEM
         then (RETURN (- EAGAIN), [ACCEPT_LOG DNET_LOG_ERROR ''Failed to accept new client''])
         else (EXIT err,
               [ACCEPT_LOG DNET_LOG_ERROR ''Failed to accept new client'',
                ACCEPT_LOG DNET_LOG_ERROR ''FATAL: cannot recover from this error, exiting'']))
      else if local_addr_err env \<noteq> 0 then
        (RETURN (local_addr_err env),
         [SET_SOCKOPT cs, ACCEPT_LOG DNET_LOG_ERROR ''failed to resolve server addr''])
      else
        (case state_create_err env of
           Some err \<Rightarrow>
             (RETURN (- EAGAIN),
              [SET_SOCKOPT cs, ACCEPT_LOG DNET_LOG_ERROR ''Failed to create state''])
         | None \<Rightarrow>
             (RETURN 0, [SET_SOCKOPT cs, STATE_PUT, ACCEPT_LOG DNET_LOG_INFO ''Accepted client''])))"

subsection \<open>The reactor loop\<close>

text \<open>
  One epoll event as the \<^verbatim>\<open>for\<close> loop of \<^verbatim>\<open>dnet_io_process_network\<close> sees it: the event
  mask, \<^verbatim>\<open>data->fd\<close>, the connection \<^verbatim>\<open>data->st\<close> (a number) and its \<^verbatim>\<open>accept_s\<close>;
  \<^verbatim>\<open>n->io\<close> at the moment the admission check reads it (other threads change it); and
  what the handlers meet or return if they are called: the environment of the accept
  path, the value returned by \<^verbatim>\<open>dnet_process_recv_single\<close> and the value returned by
  \<^verbatim>\<open>dnet_process_send_single\<close>.
\<close>

record reactor_event =
  ev_events :: "32 word"
  ev_fd :: int
  ev_st :: nat
  ev_accept_s :: int
  ev_io :: dnet_io
  ev_accept :: accept_env
  ev_recv_err :: int
  ev_send_err :: int

text \<open>
  The calls of the loop. \<open>STATE_RESET st err\<close> is the whole reset block: the error line,
  \<^verbatim>\<open>dnet_state_reset\<close>, \<^verbatim>\<open>dnet_unschedule_all\<close>, \<^verbatim>\<open>dnet_add_reconnect_state\<close> and
  \<^verbatim>\<open>dnet_state_put\<close>.
\<close>

datatype reactor_call =
    ACCEPT_PROCESS nat "accept_call list"
  | PROCESS_RECV nat
  | PROCESS_SEND nat
  | LOG_ERROR_EVENT_MASK nat "32 word"
  | STATE_RESET nat int
  | PROCESS_EXIT int

definition dnet_state_net_process :: "reactor_event \<Rightarrow> int \<times> reactor_call list" where
  "dnet_state_net_process e =
     (let is_recv = (ev_events e AND EPOLLIN \<noteq> 0);
          err1 = (if is_recv then ev_recv_err e else - ECONNRESET);
          calls1 = (if is_recv then [PROCESS_RECV (ev_st e)] else [])
      in if is_recv \<and> err1 \<noteq> 0 \<and> err1 \<noteq> - EAGAIN then (err1, calls1)
         else
           (let is_send = (ev_events e AND EPOLLOUT \<noteq> 0);
                err2 = (if is_send then ev_send_err e else err1);
                calls2 = calls1 @ (if is_send then [PROCESS_SEND (ev_st e)] else [])
            in if is_send \<and> err2 \<noteq> 0 \<and> err2 \<noteq> - EAGAIN then (err2, calls2)
               else if ev_events e AND (EPOLLHUP OR EPOLLERR) \<noteq> 0
               then (- ECONNRESET, calls2 @ [LOG_ERROR_EVENT_MASK (ev_st e) (ev_events e)])
               else (err2, calls2)))"

datatype loop_outcome = CONTINUE | BREAK | EXITED

text \<open>
  The code after a handler has returned \<open>err\<close>: whether the loop goes on to the next
  event or resets the connection and breaks.
\<close>

definition after_handler :: "nat \<Rightarrow> int \<Rightarrow> reactor_call list \<Rightarrow> reactor_call list \<times> loop_outcome" where
  "after_handler st err calls =
     (if err = 0 then (calls, CONTINUE)
      else if err < 0 \<and> err \<noteq> - EAGAIN then (calls @ [STATE_RESET st err], BREAK)
      else (calls, CONTINUE))"

text \<open>
  The body of the \<^verbatim>\<open>for\<close> loop for one event: whether \<^verbatim>\<open>tmp\<close> is incremented, the
  calls made and how the loop goes on.
\<close>

definition dnet_io_process_event :: "reactor_event \<Rightarrow> bool \<times> reactor_call list \<times> loop_outcome" where
  "dnet_io_process_event e =
     (if ev_fd e = ev_accept_s e then
        (case dnet_state_accept_process (ev_accept e) of
           (EXIT err, log) \<Rightarrow> (True, [ACCEPT_PROCESS (ev_st e) log, PROCESS_EXIT err], EXITED)
         | (RETURN err, log) \<Rightarrow>
             (case after_handler (ev_st e) err [ACCEPT_PROCESS (ev_st e) log] of
                (calls, outcome) \<Rightarrow> (True, calls, outcome)))
      else if ev_events e AND EPOLLOUT \<noteq> 0 \<or> dnet_check_io (ev_io e) \<noteq> 0 then
        (case dnet_state_net_process e of
           (err, calls) \<Rightarrow>
             (case after_handler (ev_st e) err calls of
                (calls', outcome) \<Rightarrow> (True, calls', outcome)))
      else (False, [], CONTINUE))"

text \<open>
  The \<^verbatim>\<open>for\<close> loop over the events from the index \<open>i\<close> on: the calls made, each with the
  index of its event, the final \<^verbatim>\<open>tmp\<close>, and the number of events examined.
\<close>

fun dnet_io_process_events ::
  "nat \<Rightarrow> reactor_event list \<Rightarrow> (nat \<times> reactor_call) list \<times> int \<times> nat" where
  "dnet_io_process_events i [] = ([], 0, i)"
| "dnet_io_process_events i (e # es) =
     (case dnet_io_process_event e of
        (served, calls, outcome) \<Rightarrow>
          (case outcome of
             CONTINUE \<Rightarrow>
               (case dnet_io_process_events (i + 1) es of
                  (trace, tmp, n) \<Rightarrow>
                    (map (Pair i) calls @ trace, (if served then 1 else 0) + tmp, n))
           | _ \<Rightarrow> (map (Pair i) calls, (if served then 1 else 0), i + 1)))"

text \<open>
  Sample events of the connection 7: the mask, \<^verbatim>\<open>data->fd\<close>, the \<^verbatim>\<open>accept_s\<close> of the
  connection and the pools at the time of the event; \<^verbatim>\<open>accept\<close> would fail with
  \<^verbatim>\<open>EMFILE\<close>, the receive and send handlers would return 0.
\<close>

definition example_accept_env :: "int \<Rightarrow> accept_env" where
  "example_accept_env e =
     \<lparr>accept_cs = - 1, accept_errno = e, local_addr_err = 0, state_create_err = None\<rparr>"

definition example_event :: "32 word \<Rightarrow> int \<Rightarrow> int \<Rightarrow> dnet_io \<Rightarrow> reactor_event" where
  "example_event m fd acc io =
     \<lparr>ev_events = m, ev_fd = fd, ev_st = 7, ev_accept_s = acc, ev_io = io,
      ev_accept = example_accept_env EMFILE, ev_recv_err = 0, ev_send_err = 0\<rparr>"

section \<open>Verified properties\<close>

subsection \<open>Auxiliary facts\<close>

lemma rand_scale_bound:
  assumes "0 \<le> r" "r \<le> M" "1 \<le> m"
  shows "0 \<le> c_div r (c_div M m + 1) \<and> c_div r (c_div M m + 1) < m"
proof -
  have M0: "0 \<le> M" using assms by simp
  have d: "c_div M m = M div m" using M0 assms by (simp add: c_div_def)
  have dpos: "0 < M div m + 1" using M0 assms by (simp add: add_pos_nonneg pos_imp_zdiv_nonneg_iff)
  have q: "c_div r (c_div M m + 1) = r div (M div m + 1)"
    using assms dpos by (simp add: d c_div_def)
  have e1: "M = m * (M div m) + M mod m" by simp
  have "M mod m < m" using assms by simp
  moreover note e1
  moreover have "(M div m + 1) * m = m * (M div m) + m" by (simp add: algebra_simps)
  ultimately have lt: "M < (M div m + 1) * m" using e1 by linarith
  have nonneg: "0 \<le> r div (M div m + 1)" using assms dpos by (simp add: pos_imp_zdiv_nonneg_iff)
  have less: "r div (M div m + 1) < m"
  proof (rule ccontr)
    assume "\<not> r div (M div m + 1) < m"
    then have ge: "m \<le> r div (M div m + 1)" by simp
    have "(M div m + 1) * m \<le> (M div m + 1) * (r div (M div m + 1))"
      using ge dpos by (simp add: mult_left_mono)
    also have "\<dots> \<le> r" using dpos by (metis add.commute add_0 add_le_cancel_right mult_div_mod_eq pos_mod_sign)
    finally show False using lt assms by simp
  qed
  show ?thesis using nonneg less by (simp add: q)
qed

lemma swap_take_drop:
  assumes "i < n" "j < n" "n \<le> length xs"
  shows "mset (take n (xs[j := xs ! i, i := xs ! j])) = mset (take n xs)"
    and "drop n (xs[j := xs ! i, i := xs ! j]) = drop n xs"
proof -
  let ?t = "take n xs"
  have "take n (xs[j := xs ! i, i := xs ! j]) = ?t[j := ?t ! i, i := ?t ! j]"
    using assms by (simp add: take_update_swap)
  moreover have "mset (?t[j := ?t ! i, i := ?t ! j]) = mset ?t"
    by (rule mset_swap) (use assms in simp_all)
  ultimately show "mset (take n (xs[j := xs ! i, i := xs ! j])) = mset (take n xs)"
    by simp
  show "drop n (xs[j := xs ! i, i := xs ! j]) = drop n xs"
    using assms by simp
qed

lemma dnet_shuffle_loop_perm:
  assumes "\<forall>k. 0 \<le> rnd k \<and> rnd k \<le> rand_max" "sz \<le> int (length evs)" "0 \<le> i"
  shows "\<exists>evs'. dnet_shuffle_loop rand_max rnd sz i evs = Some evs'
           \<and> mset (take (nat sz) evs') = mset (take (nat sz) evs)
           \<and> drop (nat sz) evs' = drop (nat sz) evs
           \<and> length evs' = length evs"
  using assms
proof (induction rand_max rnd sz i evs rule: dnet_shuffle_loop.induct)
  case (1 rand_max rnd sz i evs)
  show ?case
  proof (cases "i < sz - 1")
    case False
    then show ?thesis by (simp add: dnet_shuffle_loop.simps)
  next
    case True
    define q where "q = c_div (rnd (nat i)) (c_div rand_max (sz - i) + 1)"
    define j where "j = i + q"
    have "0 \<le> rnd (nat i)" "rnd (nat i) \<le> rand_max" using "1.prems"(1) by auto
    then have qb: "0 \<le> q \<and> q < sz - i"
      unfolding q_def using True by (intro rand_scale_bound) auto
    have jb: "0 \<le> j" "j < sz" "j < int (length evs)" "i < int (length evs)" "nat i < nat sz" "nat j < nat sz"
      using qb True "1.prems" by (auto simp: j_def)
    let ?evs2 = "evs[nat j := evs ! nat i, nat i := evs ! nat j]"
    have step: "dnet_shuffle_loop rand_max rnd sz i evs = dnet_shuffle_loop rand_max rnd sz (i + 1) ?evs2"
      using True jb "1.prems"(3)
      by (subst dnet_shuffle_loop.simps) (simp add: Let_def j_def q_def)
    have "\<exists>evs'. dnet_shuffle_loop rand_max rnd sz (i + 1) ?evs2 = Some evs'
           \<and> mset (take (nat sz) evs') = mset (take (nat sz) ?evs2)
           \<and> drop (nat sz) evs' = drop (nat sz) ?evs2
           \<and> length evs' = length ?evs2"
      using True jb "1.prems"
      by (intro "1.IH"[where x = j]) (simp_all add: j_def q_def)
    then obtain evs' where r: "dnet_shuffle_loop rand_max rnd sz (i + 1) ?evs2 = Some evs'"
      "mset (take (nat sz) evs') = mset (take (nat sz) ?evs2)"
      "drop (nat sz) evs' = drop (nat sz) ?evs2" "length evs' = length ?evs2" by blast
    have n: "nat sz \<le> length evs" using "1.prems" by simp
    show ?thesis
      using r step swap_take_drop[OF jb(5) jb(6) n] by simp
  qed
qed

lemma dnet_check_work_pool_place_sum:
  "dnet_check_work_pool_place place (q, t) =
     (q + of_nat (place_queued place), t + word_of_int (place_threads place))"
  by (simp add: dnet_check_work_pool_place_def place_queued_def place_threads_def
      dnet_get_pool_queue_size_def split: option.splits)

lemma dnet_check_io_pool_sum:
  "dnet_check_io_pool p (q, t) =
     (q + of_nat (place_queued (recv_pool p) + place_queued (recv_pool_nb p)),
      t + word_of_int (place_threads (recv_pool p) + place_threads (recv_pool_nb p)))"
  by (simp add: dnet_check_io_pool_def dnet_check_work_pool_place_sum)

lemma dnet_io_pools_check_sum:
  "dnet_io_pools_check pm (q, t) =
     (q + of_nat (sum_list (map place_queued (concat (map (\<lambda>p. [recv_pool p, recv_pool_nb p]) pm)))),
      t + word_of_int (sum_list (map place_threads (concat (map (\<lambda>p. [recv_pool p, recv_pool_nb p]) pm)))))"
  by (induction pm arbitrary: q t) (simp_all add: dnet_check_io_pool_sum)

lemma dnet_check_io_acc:
  "(case pools_manager io of
      Some pm \<Rightarrow> dnet_io_pools_check pm (dnet_check_io_pool (io_pool io) (0, 0))
    | None \<Rightarrow> dnet_check_io_pool (io_pool io) (0, 0))
   = (of_nat (queued_total io), word_of_int (threads_total io))"
  by (simp add: io_places_def queued_total_def threads_total_def
      dnet_check_io_pool_sum dnet_io_pools_check_sum add.assoc split: option.splits)

lemma dnet_check_io_words:
  "dnet_check_io io =
     (if (of_nat (queued_total io) :: 64 word) \<le> word_of_int (threads_total io) * 1000 then 1 else 0)"
  unfolding dnet_check_io_def Let_def dnet_check_io_acc by simp

lemma dnet_cmd_needs_backend_zero:
  "dnet_cmd_needs_backend command = 0 \<longleftrightarrow>
     command \<in> {DNET_CMD_AUTH, DNET_CMD_STATUS, DNET_CMD_REVERSE_LOOKUP, DNET_CMD_JOIN,
                 DNET_CMD_ROUTE_LIST, DNET_CMD_MONITOR_STAT, DNET_CMD_BACKEND_CONTROL,
                 DNET_CMD_BACKEND_STATUS, DNET_CMD_BULK_READ_NEW, DNET_CMD_BULK_REMOVE_NEW}"
  by (cases command) (simp_all add: dnet_cmd_needs_backend_def)

lemma res_backend_id_dnet_schedule_io:
  "res_backend_id (dnet_schedule_io search_backend n2_err now st r) =
     (if DNET_FLAGS_DIRECT_BACKEND \<in> flags (header r) then backend_id (header r)
      else if dnet_cmd_needs_backend (cmd (header r)) \<noteq> 0 then search_backend (cmd_id (header r))
      else - 1)"
  by (simp add: dnet_schedule_io_def Let_def dnet_io_req_get_cmd_def split: prod.splits)

lemma dnet_update_trans_timestamp_network_reply:
  assumes "DNET_FLAGS_REPLY \<in> flags (header r)"
  shows "dnet_update_trans_timestamp_network now st r =
     (case trans_root st (cmd_trans (header r)) of
        Some t \<Rightarrow> (st\<lparr>trans_root := (trans_root st)(cmd_trans (header r) \<mapsto> t\<lparr>time := now\<rparr>),
                       timer_root := timer_root st - {trans_no t}\<rparr>,
                   [TRANS_LOCK, TRANS_SEARCH (cmd_trans (header r)), TRANS_UNLOCK])
      | None \<Rightarrow> (st, [TRANS_LOCK, TRANS_SEARCH (cmd_trans (header r)), TRANS_UNLOCK]))"
  using assms
  by (simp add: dnet_update_trans_timestamp_network_def dnet_io_req_get_cmd_def Let_def
      dnet_trans_search_def dnet_trans_update_timestamp_def dnet_trans_remove_timer_nolock_def
      split: option.splits)

lemma dnet_schedule_io_reply:
  assumes "DNET_FLAGS_REPLY \<in> flags (header r)"
  shows "res_pushed (dnet_schedule_io search_backend n2_err now st r)
           = Some (r\<lparr>recv_time := rcv_finish_ts st - rcv_start_ts st\<rparr>)"
    and "res_st (dnet_schedule_io search_backend n2_err now st r)
           = fst (dnet_update_trans_timestamp_network now st r)"
    and "\<exists>l m. l \<in> {DNET_LOG_DEBUG, DNET_LOG_INFO}
           \<and> res_calls (dnet_schedule_io search_backend n2_err now st r)
           = DNET_LOG l m # snd (dnet_update_trans_timestamp_network now st r)
             @ [DNET_LOG DNET_LOG_DEBUG ''backend_id'', PLACE_UNLOCK]"
  using assms
  by (simp_all add: dnet_schedule_io_def Let_def dnet_io_req_get_cmd_def
      dnet_update_trans_timestamp_network_def split: prod.splits option.splits)

lemma dnet_work_pool_stop_loop_eq:
  assumes "i \<le> length ws"
  shows "dnet_work_pool_stop_loop (int (length ws)) (int i) (Some ws) joins =
           Some (Some (take i ws @ map mark_joined (drop i ws)),
                 joins @ map tid (filter (\<lambda>w. joined w = 0) (drop i ws)))"
  using assms
proof (induction "length ws - i" arbitrary: i ws joins)
  case 0
  then show ?case by (simp add: dnet_work_pool_stop_loop.simps)
next
  case (Suc d)
  then have lt: "i < length ws" by simp
  have dr: "drop i ws = ws ! i # drop (Suc i) ws"
    using lt by (simp add: Cons_nth_drop_Suc)
  show ?case
  proof (cases "joined (ws ! i) = 0")
    case True
    let ?ws' = "ws[i := (ws ! i)\<lparr>joined := 1\<rparr>]"
    have len: "length ?ws' = length ws" by simp
    have step: "dnet_work_pool_stop_loop (int (length ws)) (int i) (Some ws) joins
        = dnet_work_pool_stop_loop (int (length ?ws')) (int (Suc i)) (Some ?ws') (joins @ [tid (ws ! i)])"
      using lt True by (subst dnet_work_pool_stop_loop.simps) (simp add: Let_def add.commute)
    have "d = length ?ws' - Suc i" using Suc.hyps(2) by simp
    moreover have "Suc i \<le> length ?ws'" using lt by simp
    ultimately have ih: "dnet_work_pool_stop_loop (int (length ?ws')) (int (Suc i)) (Some ?ws') (joins @ [tid (ws ! i)])
        = Some (Some (take (Suc i) ?ws' @ map mark_joined (drop (Suc i) ?ws')),
                (joins @ [tid (ws ! i)]) @ map tid (filter (\<lambda>w. joined w = 0) (drop (Suc i) ?ws')))"
      by (rule Suc.hyps(1))
    have t: "take (Suc i) ?ws' = take i ws @ [mark_joined (ws ! i)]"
      using lt True by (simp add: take_Suc_conv_app_nth mark_joined_def)
    have d: "drop (Suc i) ?ws' = drop (Suc i) ws" by simp
    show ?thesis
      unfolding step ih t d using True by (simp add: dr)
  next
    case False
    have step: "dnet_work_pool_stop_loop (int (length ws)) (int i) (Some ws) joins
        = dnet_work_pool_stop_loop (int (length ws)) (int (Suc i)) (Some ws) joins"
      using lt False by (subst dnet_work_pool_stop_loop.simps) (simp add: Let_def add.commute)
    have "d = length ws - Suc i" using Suc.hyps(2) by simp
    moreover have "Suc i \<le> length ws" using lt by simp
    ultimately have ih: "dnet_work_pool_stop_loop (int (length ws)) (int (Suc i)) (Some ws) joins
        = Some (Some (take (Suc i) ws @ map mark_joined (drop (Suc i) ws)),
                joins @ map tid (filter (\<lambda>w. joined w = 0) (drop (Suc i) ws)))"
      by (rule Suc.hyps(1))
    have t: "take (Suc i) ws = take i ws @ [mark_joined (ws ! i)]"
      using lt False by (simp add: take_Suc_conv_app_nth mark_joined_def)
    show ?thesis
      unfolding step ih t using False by (simp add: dr)
  qed
qed

lemma dnet_work_pool_stop_eq:
  assumes "pool place = Some p" "wio_list p = Some ws" "num p = int (length ws)"
  shows "dnet_work_pool_stop (place, joins) =
           Some (place\<lparr>pool := Some (p\<lparr>wio_list := Some (map mark_joined ws)\<rparr>)\<rparr>,
                 joins @ map tid (filter (\<lambda>w. joined w = 0) ws))"
  using assms dnet_work_pool_stop_loop_eq [of 0 ws joins]
  by (simp add: dnet_work_pool_stop_def)


lemma mark_joined_simps [simp]:
  "joined (mark_joined w) \<noteq> 0" "tid (mark_joined w) = tid w"
  "mark_joined (mark_joined w) = mark_joined w"
  by (simp_all add: mark_joined_def)

lemma filter_unjoined_marked [simp]:
  "filter (\<lambda>w. joined w = 0) (map mark_joined ws) = []"
  by (induction ws) simp_all

lemma dnet_work_pool_stop_times_eq:
  assumes "pool place = Some p" "wio_list p = Some ws" "num p = int (length ws)"
  shows "dnet_work_pool_stop_times (Suc k) (place, joins) =
           Some (place\<lparr>pool := Some (p\<lparr>wio_list := Some (map mark_joined ws)\<rparr>)\<rparr>,
                 joins @ map tid (filter (\<lambda>w. joined w = 0) ws))"
proof (induction k)
  case 0
  show ?case using dnet_work_pool_stop_eq [OF assms] by simp
next
  case (Suc k)
  let ?p' = "p\<lparr>wio_list := Some (map mark_joined ws)\<rparr>"
  let ?place' = "place\<lparr>pool := Some ?p'\<rparr>"
  let ?joins' = "joins @ map tid (filter (\<lambda>w. joined w = 0) ws)"
  have again: "dnet_work_pool_stop (?place', ?joins') = Some (?place', ?joins')"
  proof -
    have "pool ?place' = Some ?p'" "wio_list ?p' = Some (map mark_joined ws)"
      "num ?p' = int (length (map mark_joined ws))"
      using assms by simp_all
    from dnet_work_pool_stop_eq [OF this, of ?joins']
    show ?thesis
      by (simp add: comp_def)
  qed
  have "dnet_work_pool_stop_times (Suc (Suc k)) (place, joins)
      = dnet_work_pool_stop_times (Suc k) (?place', ?joins')"
    using dnet_work_pool_stop_eq [OF assms, of joins] by simp
  also have "\<dots> = dnet_work_pool_stop_times k (?place', ?joins')"
    using again by simp
  also have "\<dots> = Some (?place', ?joins')"
    using Suc dnet_work_pool_stop_eq [OF assms, of joins] by (cases k) simp_all
  finally show ?case .
qed

lemma count_list_unjoined:
  assumes "distinct (map tid ws)" "w \<in> set ws"
  shows "count_list (map tid (filter (\<lambda>w. joined w = 0) ws)) (tid w) = (if joined w = 0 then 1 else 0)"
  using assms
proof (induction ws)
  case Nil
  then show ?case by simp
next
  case (Cons a ws)
  show ?case
  proof (cases "w \<in> set ws")
    case True
    then have "tid a \<noteq> tid w" using Cons.prems(1) by auto
    then show ?thesis using Cons True by simp
  next
    case False
    then have wa: "w = a" using Cons.prems(2) by simp
    have "tid a \<notin> set (map tid (filter (\<lambda>w. joined w = 0) ws))"
      using Cons.prems(1) by auto
    then have "count_list (map tid (filter (\<lambda>w. joined w = 0) ws)) (tid a) = 0"
      by (rule count_notin)
    then show ?thesis using wa by simp
  qed
qed

lemma dnet_work_pool_grow_loop_length:
  "dnet_work_pool_grow_loop create n i wios = Inr ws \<Longrightarrow> 0 \<le> i \<Longrightarrow> i \<le> n \<Longrightarrow>
     int (length ws) = int (length wios) + (n - i) \<and> take (length wios) ws = wios"
proof (induction create n i wios rule: dnet_work_pool_grow_loop.induct)
  case (1 create n i wios)
  show ?case
  proof (cases "i < n")
    case False
    with "1.prems" show ?thesis by (simp add: dnet_work_pool_grow_loop.simps)
  next
    case True
    obtain err t where c: "create (nat i) = (err, t)" by (cases "create (nat i)")
    let ?wio = "\<lparr>thread_index = i, wio_trans = - 1, joined = 0, tid = t,
                         reply_list = [], request_list = []\<rparr>"
    from "1.prems"(1) True c have e: "err = 0"
      by (subst (asm) dnet_work_pool_grow_loop.simps) (simp add: Let_def split: if_splits)
    with "1.prems"(1) True c have "dnet_work_pool_grow_loop create n (i + 1) (wios @ [?wio]) = Inr ws"
      by (subst (asm) dnet_work_pool_grow_loop.simps) (simp add: Let_def)
    from "1.IH" [OF True c [symmetric] refl _ this] e "1.prems" True
    have r: "int (length ws) = int (length (wios @ [?wio])) + (n - (i + 1))"
      "take (length (wios @ [?wio])) ws = wios @ [?wio]"
      by simp_all
    have "take (length wios) ws = take (length wios) (take (length (wios @ [?wio])) ws)"
      by (simp add: min_def)
    also have "\<dots> = wios"
      unfolding r(2) by simp
    finally show ?thesis using r(1) by simp
  qed
qed

lemma dnet_work_pool_grow_loop_err:
  "dnet_work_pool_grow_loop create n i wios = Inl (err, j, ws) \<Longrightarrow> err \<noteq> 0"
proof (induction create n i wios rule: dnet_work_pool_grow_loop.induct)
  case (1 create n i wios)
  obtain e t where c: "create (nat i) = (e, t)" by (cases "create (nat i)")
  show ?case
  proof (cases "i < n")
    case False
    with "1.prems" show ?thesis by (simp add: dnet_work_pool_grow_loop.simps)
  next
    case True
    show ?thesis
    proof (cases "e = 0")
      case True
      with "1.prems" \<open>i < n\<close> c
      have "dnet_work_pool_grow_loop create n (i + 1)
              (wios @ [\<lparr>thread_index = i, wio_trans = - 1, joined = 0, tid = t,
                         reply_list = [], request_list = []\<rparr>]) = Inl (err, j, ws)"
        by (subst (asm) dnet_work_pool_grow_loop.simps) (simp add: Let_def)
      from "1.IH" [OF \<open>i < n\<close> c [symmetric] refl _ this] True show ?thesis by simp
    next
      case False
      with "1.prems" \<open>i < n\<close> c show ?thesis
        by (subst (asm) dnet_work_pool_grow_loop.simps) (simp add: Let_def)
    qed
  qed
qed

lemma dnet_work_pool_grow_success:
  assumes "grow_err (dnet_work_pool_grow malloc_ok create p n) = 0" "0 \<le> n"
  shows "num (grow_pool (dnet_work_pool_grow malloc_ok create p n)) = n
       \<and> (\<exists>ws. wio_list (grow_pool (dnet_work_pool_grow malloc_ok create p n)) = Some ws
              \<and> int (length ws) = n)"
proof (cases "dnet_work_pool_grow_loop create n 0 []")
  case (Inl a)
  obtain err j ws where "a = (err, j, ws)" by (cases a)
  with Inl assms(1) dnet_work_pool_grow_loop_err [of create n 0 "[]" err j ws]
  show ?thesis by (simp add: dnet_work_pool_grow_def ENOMEM_def split: if_splits)
next
  case (Inr ws)
  with dnet_work_pool_grow_loop_length [of create n 0 "[]" ws] assms
  show ?thesis by (simp add: dnet_work_pool_grow_def ENOMEM_def split: if_splits)
qed

lemma dnet_process_send_loop_empty:
  "send_list st = [] \<Longrightarrow>
     dnet_process_send_loop send send_limit low k counter st = (- EAGAIN, st, dnet_unschedule_send st)"
  by (subst dnet_process_send_loop.simps) simp

lemma dnet_process_send_loop_fail:
  "send_list st = r # rest \<Longrightarrow> send k = (err, off) \<Longrightarrow> err \<noteq> 0 \<Longrightarrow>
     dnet_process_send_loop send send_limit low k counter st
       = (err, st\<lparr>send_offset := off\<rparr>, [SEND_REQUEST r])"
  by (subst dnet_process_send_loop.simps) simp

lemma dnet_process_send_loop_break:
  "send_list st = r # rest \<Longrightarrow> send k = (0, off) \<Longrightarrow>
   send_limit \<noteq> 0 \<and> counter + 1 \<ge> send_limit \<Longrightarrow>
     dnet_process_send_loop send send_limit low k counter st
       = (0, send_dequeued st rest, send_dequeue_calls low st r @ [LOG_SEND_LIMIT send_limit])"
  by (subst dnet_process_send_loop.simps)
     (auto simp: Let_def send_dequeued_def send_dequeue_calls_def)

lemma dnet_process_send_loop_next:
  "send_list st = r # rest \<Longrightarrow> send k = (0, off) \<Longrightarrow>
   \<not> (send_limit \<noteq> 0 \<and> counter + 1 \<ge> send_limit) \<Longrightarrow>
     dnet_process_send_loop send send_limit low k counter st
       = (case dnet_process_send_loop send send_limit low (k + 1)
                 (if send_limit \<noteq> 0 then counter + 1 else counter) (send_dequeued st rest) of
            (err', st', calls') \<Rightarrow> (err', st', send_dequeue_calls low st r @ calls'))"
  by (subst dnet_process_send_loop.simps)
     (auto simp: Let_def send_dequeued_def send_dequeue_calls_def)


lemma freed_of_append [simp]: "freed_of (xs @ ys) = freed_of xs @ freed_of ys"
  by (induction xs rule: freed_of.induct) simp_all

lemma freed_of_dequeue_calls [simp]: "freed_of (send_dequeue_calls low st r) = [r]"
  by (simp add: send_dequeue_calls_def)

lemma freed_of_unschedule [simp]: "freed_of (dnet_unschedule_send st) = []"
  by (simp add: dnet_unschedule_send_def)

lemma send_list_dequeued [simp]: "send_list (send_dequeued st rest) = rest"
  by (simp add: send_dequeued_def)

lemma send_queue_size_dequeued:
  "send_queue_size (send_dequeued st rest) =
     (if send_queue_size st > 0 then send_queue_size st - 1 else send_queue_size st)"
  by (simp add: send_dequeued_def)

lemma dnet_process_send_loop_cases:
  assumes "send_list st = r # rest"
  obtains (Fail) err off where "send k = (err, off)" "err \<noteq> 0"
      "dnet_process_send_loop send send_limit low k counter st
         = (err, st\<lparr>send_offset := off\<rparr>, [SEND_REQUEST r])"
    | (Break) "send_limit \<noteq> 0" "counter + 1 \<ge> send_limit"
      "dnet_process_send_loop send send_limit low k counter st
         = (0, send_dequeued st rest, send_dequeue_calls low st r @ [LOG_SEND_LIMIT send_limit])"
    | (Next) err' st' calls' where "\<not> (send_limit \<noteq> 0 \<and> counter + 1 \<ge> send_limit)"
      "dnet_process_send_loop send send_limit low (k + 1)
          (if send_limit \<noteq> 0 then counter + 1 else counter) (send_dequeued st rest) = (err', st', calls')"
      "dnet_process_send_loop send send_limit low k counter st
         = (err', st', send_dequeue_calls low st r @ calls')"
proof -
  obtain err off where s: "send k = (err, off)" by (cases "send k")
  show ?thesis
  proof (cases "err = 0")
    case False
    then show ?thesis using Fail s dnet_process_send_loop_fail [where send = send and k = k, OF assms s] by blast
  next
    case True
    show ?thesis
    proof (cases "send_limit \<noteq> 0 \<and> counter + 1 \<ge> send_limit")
      case True
      then show ?thesis
        using Break dnet_process_send_loop_break [where send = send and k = k, OF assms s [unfolded \<open>err = 0\<close>]] by blast
    next
      case False
      obtain err' st' calls' where l: "dnet_process_send_loop send send_limit low (k + 1)
          (if send_limit \<noteq> 0 then counter + 1 else counter) (send_dequeued st rest) = (err', st', calls')"
        using prod_cases3 by blast
      show ?thesis
        using Next [OF False l]
          dnet_process_send_loop_next [where send = send and k = k and low = low, OF assms s [unfolded \<open>err = 0\<close>] False] l
        by simp
    qed
  qed
qed

lemma dnet_process_send_loop_list:
  "dnet_process_send_loop send send_limit low k counter st = (err, st', calls) \<Longrightarrow>
     send_list st = freed_of calls @ send_list st'"
proof (induction "send_list st" arbitrary: k counter st err st' calls)
  case Nil
  then have "send_list st = []" by simp
  with Nil.prems show ?case by (auto simp: dnet_process_send_loop_empty)
next
  case (Cons r rest)
  from Cons.hyps(2) [symmetric] show ?case
  proof (cases rule: dnet_process_send_loop_cases [where send = send and k = k
        and send_limit = send_limit and counter = counter and low = low])
    case (Fail e off)
    with Cons.prems Cons.hyps(2) show ?thesis by auto
  next
    case Break
    with Cons.prems Cons.hyps(2) show ?thesis by auto
  next
    case (Next err' st'' calls')
    have "send_list (send_dequeued st rest) = freed_of calls' @ send_list st''"
      by (rule Cons.hyps(1) [OF _ Next(2)]) simp
    with Next Cons.prems Cons.hyps(2) show ?thesis by auto
  qed
qed

lemma unat_counter_inc:
  fixes c l :: "32 word"
  assumes "c < l"
  shows "unat (c + 1) = Suc (unat c)"
proof -
  have "unat c < unat l" using assms by (simp add: word_less_nat_alt)
  moreover have "unat l < 2 ^ LENGTH(32)" by (rule unsigned_less)
  ultimately have "unat c + unat (1 :: 32 word) < 2 ^ LENGTH(32)" by simp
  then have "unat (c + 1) = unat c + unat (1 :: 32 word)" by (simp only: unat_add_lem)
  then show ?thesis by simp
qed

lemma dnet_process_send_loop_limit:
  "dnet_process_send_loop send send_limit low k counter st = (err, st', calls) \<Longrightarrow>
   send_limit \<noteq> 0 \<Longrightarrow> counter < send_limit \<Longrightarrow>
     length (freed_of calls) + unat counter \<le> unat send_limit"
proof (induction "send_list st" arbitrary: k counter st err st' calls)
  case Nil
  then have "send_list st = []" by simp
  with Nil.prems show ?case by (auto simp: dnet_process_send_loop_empty word_less_nat_alt)
next
  case (Cons r rest)
  have u: "unat (counter + 1) = Suc (unat counter)"
    using Cons.prems(3) by (rule unat_counter_inc)
  from Cons.hyps(2) [symmetric] show ?case
  proof (cases rule: dnet_process_send_loop_cases [where send = send and k = k
        and send_limit = send_limit and counter = counter and low = low])
    case (Fail e off)
    with Cons.prems show ?thesis by (auto simp: word_less_nat_alt)
  next
    case Break
    with Cons.prems show ?thesis by (auto simp: word_less_nat_alt)
  next
    case (Next err' st'' calls')
    from Next(1) Cons.prems(2) have lt: "counter + 1 < send_limit" by simp
    have "length (freed_of calls') + unat (counter + 1) \<le> unat send_limit"
      using Cons.hyps(1) [OF _ _ Cons.prems(2) lt, of "send_dequeued st rest" "k + 1" err' st'' calls']
        Next(2) Cons.prems(2) by simp
    with Next Cons.prems u show ?thesis by auto
  qed
qed


lemma low_watermark_in_dequeue_calls [simp]:
  "LOW_WATERMARK_BROADCAST c \<in> set (send_dequeue_calls low st r) \<longleftrightarrow>
     c = low \<and> send_queue_size st > 0 \<and> send_queue_size st - 1 = low"
  by (auto simp: send_dequeue_calls_def)

lemma low_watermark_notin_unschedule [simp]:
  "LOW_WATERMARK_BROADCAST c \<notin> set (dnet_unschedule_send st)"
  by (simp add: dnet_unschedule_send_def)

lemma dnet_process_send_loop_watermark:
  "dnet_process_send_loop send send_limit low k counter st = (err, st', calls) \<Longrightarrow>
     (LOW_WATERMARK_BROADCAST c \<in> set calls \<longleftrightarrow>
        c = low \<and> 0 \<le> low \<and> send_queue_size st - int (length (freed_of calls)) \<le> low
        \<and> low < send_queue_size st)
     \<and> send_queue_size st' =
         (if send_queue_size st > 0
          then max 0 (send_queue_size st - int (length (freed_of calls)))
          else send_queue_size st)"
proof (induction "send_list st" arbitrary: k counter st err st' calls)
  case Nil
  then have "send_list st = []" by simp
  with Nil.prems show ?case by (auto simp: dnet_process_send_loop_empty)
next
  case (Cons r rest)
  from Cons.hyps(2) [symmetric] show ?case
  proof (cases rule: dnet_process_send_loop_cases [where send = send and k = k
        and send_limit = send_limit and counter = counter and low = low])
    case (Fail e off)
    with Cons.prems show ?thesis by auto
  next
    case Break
    with Cons.prems show ?thesis by (auto simp: send_queue_size_dequeued)
  next
    case (Next err' st'' calls')
    have ih: "(LOW_WATERMARK_BROADCAST c \<in> set calls' \<longleftrightarrow>
        c = low \<and> 0 \<le> low
        \<and> send_queue_size (send_dequeued st rest) - int (length (freed_of calls')) \<le> low
        \<and> low < send_queue_size (send_dequeued st rest))
     \<and> send_queue_size st'' =
         (if send_queue_size (send_dequeued st rest) > 0
          then max 0 (send_queue_size (send_dequeued st rest) - int (length (freed_of calls')))
          else send_queue_size (send_dequeued st rest))"
      by (rule Cons.hyps(1) [OF _ Next(2)]) simp
    have eq: "st' = st''" "calls = send_dequeue_calls low st r @ calls'"
      using Next(3) Cons.prems by simp_all
    show ?thesis
      unfolding eq using ih by (auto simp: send_queue_size_dequeued split: if_splits)
  qed
qed

lemma dnet_process_send_loop_eagain:
  "send_list st = pre @ r # post \<Longrightarrow>
   (\<forall>j < length pre. fst (send (k + j)) = 0) \<Longrightarrow>
   fst (send (k + length pre)) = e \<Longrightarrow> e \<noteq> 0 \<Longrightarrow>
   send_limit = 0 \<or> unat counter + length pre < unat send_limit \<Longrightarrow>
     \<exists>st' calls. dnet_process_send_loop send send_limit low k counter st = (e, st', calls)
        \<and> send_list st' = r # post \<and> freed_of calls = pre"
proof (induction pre arbitrary: k counter st)
  case Nil
  obtain off where "send k = (e, off)" using Nil.prems(3) by (cases "send k") simp
  with Nil.prems show ?case
    using dnet_process_send_loop_fail [where send = send and k = k and st = st and r = r and rest = post]
    by simp
next
  case (Cons a pre)
  have sl: "send_list st = a # (pre @ r # post)" using Cons.prems(1) by simp
  obtain off where s: "send k = (0, off)" using Cons.prems(2) by (cases "send k") force
  have nb: "\<not> (send_limit \<noteq> 0 \<and> counter + 1 \<ge> send_limit)"
  proof
    assume a: "send_limit \<noteq> 0 \<and> counter + 1 \<ge> send_limit"
    with Cons.prems(5) have lt: "unat counter + Suc (length pre) < unat send_limit" by simp
    then have "counter < send_limit" by (simp add: word_less_nat_alt)
    then have "unat (counter + 1) = Suc (unat counter)" by (rule unat_counter_inc)
    with a lt show False by (simp add: word_le_nat_alt)
  qed
  let ?counter' = "if send_limit \<noteq> 0 then counter + 1 else counter"
  let ?st1 = "send_dequeued st (pre @ r # post)"
  have c': "send_limit = 0 \<or> unat ?counter' + length pre < unat send_limit"
  proof (cases "send_limit = 0")
    case True then show ?thesis by simp
  next
    case False
    with Cons.prems(5) have lt: "unat counter + Suc (length pre) < unat send_limit" by simp
    then have "counter < send_limit" by (simp add: word_less_nat_alt)
    then have "unat (counter + 1) = Suc (unat counter)" by (rule unat_counter_inc)
    with lt False show ?thesis by simp
  qed
  have "\<exists>st' calls. dnet_process_send_loop send send_limit low (k + 1) ?counter' ?st1 = (e, st', calls)
        \<and> send_list st' = r # post \<and> freed_of calls = pre"
  proof (rule Cons.IH [OF _ _ _ Cons.prems(4) c'])
    show "send_list ?st1 = pre @ r # post" by simp
    show "\<forall>j<length pre. fst (send (k + 1 + j)) = 0"
      using Cons.prems(2) by (metis add.assoc add.commute length_Cons not_less_eq plus_1_eq_Suc)
    show "fst (send (k + 1 + length pre)) = e" using Cons.prems(3) by simp
  qed
  then obtain st' calls where r: "dnet_process_send_loop send send_limit low (k + 1) ?counter' ?st1 = (e, st', calls)"
      "send_list st' = r # post" "freed_of calls = pre" by blast
  show ?case
    using dnet_process_send_loop_next [where send = send and k = k and low = low, OF sl s nb] r
    by simp
qed

lemma freed_of_single:
  "dnet_process_send_single send send_limit low st = (err, st', calls) \<Longrightarrow>
     \<exists>calls0. dnet_process_send_loop send send_limit low 0 0 st = (err, st', calls0)
       \<and> freed_of calls = freed_of calls0
       \<and> (\<forall>c. LOW_WATERMARK_BROADCAST c \<in> set calls \<longleftrightarrow> LOW_WATERMARK_BROADCAST c \<in> set calls0)"
  by (auto simp: dnet_process_send_single_def split: prod.splits if_splits)

lemma dnet_check_io_bool: "dnet_check_io io = 0 \<or> dnet_check_io io = 1"
  by (simp add: dnet_check_io_def Let_def split: prod.splits)

lemma after_handler_calls:
  "after_handler st err calls = (calls', outcome) \<Longrightarrow>
     calls' = calls \<or> calls' = calls @ [STATE_RESET st err]"
  by (auto simp: after_handler_def split: if_splits)

lemma recv_in_net_process:
  "PROCESS_RECV s \<in> set (snd (dnet_state_net_process e)) \<Longrightarrow>
     ev_events e AND EPOLLIN \<noteq> 0 \<and> s = ev_st e"
  by (auto simp: dnet_state_net_process_def Let_def split: if_splits)

lemma send_in_net_process:
  "ev_events e AND EPOLLOUT \<noteq> 0 \<Longrightarrow> ev_events e AND EPOLLIN = 0 \<Longrightarrow>
     PROCESS_SEND (ev_st e) \<in> set (snd (dnet_state_net_process e))"
  by (auto simp: dnet_state_net_process_def Let_def split: if_splits)

lemma recv_in_process_event:
  assumes "PROCESS_RECV s \<in> set (fst (snd (dnet_io_process_event e)))"
  shows "ev_fd e \<noteq> ev_accept_s e \<and> ev_events e AND EPOLLIN \<noteq> 0
       \<and> (ev_events e AND EPOLLOUT \<noteq> 0 \<or> dnet_check_io (ev_io e) = 1) \<and> s = ev_st e"
proof (cases "ev_fd e = ev_accept_s e")
  case True
  with assms show ?thesis
    by (auto simp: dnet_io_process_event_def after_handler_def
        split: prod.splits accept_result.splits if_splits)
next
  case False
  show ?thesis
  proof (cases "ev_events e AND EPOLLOUT \<noteq> 0 \<or> dnet_check_io (ev_io e) \<noteq> 0")
    case False
    with assms \<open>ev_fd e \<noteq> ev_accept_s e\<close> show ?thesis
      by (simp add: dnet_io_process_event_def)
  next
    case True
    obtain err calls where n: "dnet_state_net_process e = (err, calls)"
      by (cases "dnet_state_net_process e")
    obtain calls' outcome where a: "after_handler (ev_st e) err calls = (calls', outcome)"
      by (cases "after_handler (ev_st e) err calls")
    have "fst (snd (dnet_io_process_event e)) = calls'"
      using True \<open>ev_fd e \<noteq> ev_accept_s e\<close> n a by (simp add: dnet_io_process_event_def)
    with assms after_handler_calls [OF a] have "PROCESS_RECV s \<in> set calls" by auto
    with recv_in_net_process [of s e] n
    have "ev_events e AND EPOLLIN \<noteq> 0 \<and> s = ev_st e" by simp
    with True False dnet_check_io_bool [of "ev_io e"] show ?thesis by auto
  qed
qed

lemma send_in_process_event:
  assumes "ev_fd e \<noteq> ev_accept_s e" "ev_events e AND EPOLLOUT \<noteq> 0" "ev_events e AND EPOLLIN = 0"
  shows "PROCESS_SEND (ev_st e) \<in> set (fst (snd (dnet_io_process_event e)))"
proof -
  obtain err calls where n: "dnet_state_net_process e = (err, calls)"
    by (cases "dnet_state_net_process e")
  obtain calls' outcome where a: "after_handler (ev_st e) err calls = (calls', outcome)"
    by (cases "after_handler (ev_st e) err calls")
  have "fst (snd (dnet_io_process_event e)) = calls'"
    using assms n a by (simp add: dnet_io_process_event_def)
  moreover have "PROCESS_SEND (ev_st e) \<in> set calls"
    using send_in_net_process [OF assms(2,3)] n by simp
  ultimately show ?thesis using after_handler_calls [OF a] by auto
qed

lemma dnet_io_process_events_trace:
  "dnet_io_process_events i evs = (trace, tmp, n) \<Longrightarrow>
     i \<le> n \<and> n \<le> i + length evs
     \<and> (\<forall>j c. (j, c) \<in> set trace \<longleftrightarrow>
           i \<le> j \<and> j < n \<and> c \<in> set (fst (snd (dnet_io_process_event (evs ! (j - i))))))"
proof (induction evs arbitrary: i trace tmp n)
  case Nil
  then show ?case by auto
next
  case (Cons e es)
  obtain served calls outcome where p: "dnet_io_process_event e = (served, calls, outcome)"
    by (cases "dnet_io_process_event e")
  show ?case
  proof (cases "outcome = CONTINUE")
    case False
    with Cons.prems p have r: "trace = map (Pair i) calls" "n = i + 1"
      by (auto split: loop_outcome.splits)
    have "(j, c) \<in> set (map (Pair i) calls) \<longleftrightarrow>
            i \<le> j \<and> j < i + 1 \<and> c \<in> set (fst (snd (dnet_io_process_event ((e # es) ! (j - i)))))"
      for j c
    proof (cases "j = i")
      case True
      then show ?thesis using p by auto
    next
      case False
      then show ?thesis by auto
    qed
    then show ?thesis unfolding r by simp
  next
    case True
    obtain trace' tmp' n' where q: "dnet_io_process_events (i + 1) es = (trace', tmp', n')"
      by (cases "dnet_io_process_events (i + 1) es")
    from Cons.prems p True q have r: "trace = map (Pair i) calls @ trace'" "n = n'"
      by auto
    from Cons.IH [OF q] have ih: "i + 1 \<le> n'" "n' \<le> i + 1 + length es"
      "\<And>j c. (j, c) \<in> set trace' \<longleftrightarrow>
           i + 1 \<le> j \<and> j < n' \<and> c \<in> set (fst (snd (dnet_io_process_event (es ! (j - (i + 1))))))"
      by blast+
    have "(j, c) \<in> set (map (Pair i) calls @ trace') \<longleftrightarrow>
            i \<le> j \<and> j < n' \<and> c \<in> set (fst (snd (dnet_io_process_event ((e # es) ! (j - i)))))"
      for j c
    proof (cases "j = i")
      case True
      then show ?thesis using p ih(1) ih(3) [of j c] by auto
    next
      case False
      then have "(j, c) \<in> set (map (Pair i) calls @ trace') \<longleftrightarrow> (j, c) \<in> set trace'"
        by auto
      also have "\<dots> \<longleftrightarrow> i + 1 \<le> j \<and> j < n'
          \<and> c \<in> set (fst (snd (dnet_io_process_event (es ! (j - (i + 1))))))"
        by (rule ih(3))
      also have "\<dots> \<longleftrightarrow> i \<le> j \<and> j < n'
          \<and> c \<in> set (fst (snd (dnet_io_process_event ((e # es) ! (j - i)))))"
      proof (cases "i + 1 \<le> j")
        case True
        then have "(e # es) ! (j - i) = es ! (j - (i + 1))"
          by (simp add: nth_Cons')
        with True show ?thesis by auto
      next
        case False
        with \<open>j \<noteq> i\<close> show ?thesis by auto
      qed
      finally show ?thesis .
    qed
    then show ?thesis unfolding r using ih(1,2) by simp
  qed
qed



subsection \<open>Properties of the specification\<close>

text \<open>
  C1. The admission check \<^verbatim>\<open>dnet_check_io\<close> returns 1 if and only if the number of queued
  requests, summed over every pool place, is at most 1000 times the number of worker
  threads, summed over every pool place, and returns 0 otherwise. The sums are those of
  the code's \<^verbatim>\<open>uint64_t\<close> accumulators as long as they fit in 64 bits and no worker
  count is negative.
\<close>

theorem dnet_check_io_admission:
  assumes "\<forall>place \<in> set (io_places io). 0 \<le> place_threads place"
    and "queued_total io < 2 ^ 64"
    and "threads_total io * 1000 < 2 ^ 64"
  shows "dnet_check_io io = (if int (queued_total io) \<le> threads_total io * 1000 then 1 else 0)"
proof -
  have nonneg: "0 \<le> threads_total io"
    unfolding threads_total_def using assms(1) by (intro sum_list_nonneg) auto
  have q: "uint (of_nat (queued_total io) :: 64 word) = int (queued_total io)"
    using assms(2) by (simp add: uint_nat unat_of_nat)
  have "word_of_int (threads_total io) * (1000 :: 64 word) = word_of_int (threads_total io * 1000)"
    by simp
  then have t: "uint (word_of_int (threads_total io) * (1000 :: 64 word)) = threads_total io * 1000"
    using nonneg assms(3) by (simp only: uint_word_of_int) simp
  show ?thesis
    by (simp only: dnet_check_io_words word_le_def q t)
qed

theorem dnet_check_io_admission_witness:
  "list_all (\<lambda>place. 0 \<le> place_threads place)
      (io_places (example_io 2 [example_req, example_req, example_req]))
   \<and> queued_total (example_io 2 [example_req, example_req, example_req]) = 3
   \<and> threads_total (example_io 2 [example_req, example_req, example_req]) = 2
   \<and> dnet_check_io (example_io 2 [example_req, example_req, example_req]) = 1
   \<and> queued_total (example_io 0 [example_req]) = 1
   \<and> threads_total (example_io 0 [example_req]) = 0
   \<and> dnet_check_io (example_io 0 [example_req]) = 0"
  using dnet_check_io_admission [of "example_io 2 [example_req, example_req, example_req]"]
    dnet_check_io_admission [of "example_io 0 [example_req]"]
  by (simp add: example_io_def example_pool_def io_places_def place_threads_def
      place_queued_def queued_total_def threads_total_def)

text \<open>
  C2. The backend id that \<^verbatim>\<open>dnet_schedule_io\<close> resolves for a request (the one it passes
  to \<^verbatim>\<open>dnet_backend_get_place\<close>) is the \<^verbatim>\<open>backend_id\<close> field of the header when the
  header carries \<^verbatim>\<open>DNET_FLAGS_DIRECT_BACKEND\<close>; otherwise it is -1 for the ten opcodes
  that need no backend; otherwise it is the result of the routing lookup of the key.
\<close>

theorem dnet_schedule_io_backend_id:
  "res_backend_id (dnet_schedule_io search_backend n2_err now st r) =
     (if DNET_FLAGS_DIRECT_BACKEND \<in> flags (header r) then backend_id (header r)
      else if cmd (header r) \<in>
          {DNET_CMD_AUTH, DNET_CMD_STATUS, DNET_CMD_REVERSE_LOOKUP, DNET_CMD_JOIN,
           DNET_CMD_ROUTE_LIST, DNET_CMD_MONITOR_STAT, DNET_CMD_BACKEND_CONTROL,
           DNET_CMD_BACKEND_STATUS, DNET_CMD_BULK_READ_NEW, DNET_CMD_BULK_REMOVE_NEW}
      then - 1
      else search_backend (cmd_id (header r)))"
  unfolding res_backend_id_dnet_schedule_io
  using dnet_cmd_needs_backend_zero [of "cmd (header r)"] by (simp del: insert_iff)

theorem dnet_schedule_io_backend_id_witness:
  "res_backend_id (dnet_schedule_io (\<lambda>k. 3) 0 200 example_st
      (example_req\<lparr>header := example_cmd\<lparr>flags := {DNET_FLAGS_DIRECT_BACKEND}, backend_id := 7\<rparr>\<rparr>)) = 7
   \<and> res_backend_id (dnet_schedule_io (\<lambda>k. 3) 0 200 example_st
      (example_req\<lparr>header := example_cmd\<lparr>cmd := DNET_CMD_AUTH\<rparr>\<rparr>)) = - 1
   \<and> res_backend_id (dnet_schedule_io (\<lambda>k. 3) 0 200 example_st example_req) = 3"
  using dnet_schedule_io_backend_id [of "\<lambda>k. 3" 0 200 example_st
      "example_req\<lparr>header := example_cmd\<lparr>flags := {DNET_FLAGS_DIRECT_BACKEND}, backend_id := 7\<rparr>\<rparr>"]
    dnet_schedule_io_backend_id [of "\<lambda>k. 3" 0 200 example_st
      "example_req\<lparr>header := example_cmd\<lparr>cmd := DNET_CMD_AUTH\<rparr>\<rparr>"]
    dnet_schedule_io_backend_id [of "\<lambda>k. 3" 0 200 example_st example_req]
  by (simp add: example_req_def example_cmd_def)

text \<open>
  C3. In the loop over the epoll events, the receive handler is called for an event only
  if the event is not an accept event, carries \<^verbatim>\<open>EPOLLIN\<close>, and either carries
  \<^verbatim>\<open>EPOLLOUT\<close> or the admission check returned 1 when the event was examined; and for
  every event examined that carries \<^verbatim>\<open>EPOLLOUT\<close> without \<^verbatim>\<open>EPOLLIN\<close> (and is not an
  accept event) the send handler is called, whatever the admission check says.
\<close>

theorem dnet_io_process_events_admission:
  assumes "dnet_io_process_events 0 evs = (trace, tmp, n)"
  shows "n \<le> length evs
       \<and> (\<forall>i s. (i, PROCESS_RECV s) \<in> set trace \<longrightarrow>
             i < n \<and> s = ev_st (evs ! i)
             \<and> ev_fd (evs ! i) \<noteq> ev_accept_s (evs ! i)
             \<and> ev_events (evs ! i) AND EPOLLIN \<noteq> 0
             \<and> (ev_events (evs ! i) AND EPOLLOUT \<noteq> 0 \<or> dnet_check_io (ev_io (evs ! i)) = 1))
       \<and> (\<forall>i. i < n \<and> ev_fd (evs ! i) \<noteq> ev_accept_s (evs ! i)
             \<and> ev_events (evs ! i) AND EPOLLOUT \<noteq> 0 \<and> ev_events (evs ! i) AND EPOLLIN = 0
             \<longrightarrow> (i, PROCESS_SEND (ev_st (evs ! i))) \<in> set trace)"
proof -
  from dnet_io_process_events_trace [OF assms]
  have n: "n \<le> length evs"
    and t: "\<And>j c. (j, c) \<in> set trace \<longleftrightarrow>
           j < n \<and> c \<in> set (fst (snd (dnet_io_process_event (evs ! j))))"
    by auto
  show ?thesis
    using n t recv_in_process_event send_in_process_event by blast
qed

theorem dnet_io_process_events_admission_witness:
  "dnet_io_process_events 0
      [example_event EPOLLIN 5 (- 1) (example_io 0 [example_req]),
       example_event EPOLLOUT 6 (- 1) (example_io 0 [example_req]),
       example_event EPOLLIN 5 (- 1) (example_io 2 [])]
     = ([(1, PROCESS_SEND 7), (2, PROCESS_RECV 7)], 2, 3)
   \<and> dnet_check_io (example_io 0 [example_req]) = 0
   \<and> dnet_check_io (example_io 2 []) = 1"
proof -
  have ev: "dnet_io_process_events 0
      [example_event EPOLLIN 5 (- 1) (example_io 0 [example_req]),
       example_event EPOLLOUT 6 (- 1) (example_io 0 [example_req]),
       example_event EPOLLIN 5 (- 1) (example_io 2 [])]
     = ([(1, PROCESS_SEND 7), (2, PROCESS_RECV 7)], 2, 3)"
    by (simp add: dnet_io_process_event_def dnet_state_net_process_def after_handler_def
        example_event_def dnet_check_io_words queued_total_def threads_total_def io_places_def
        place_queued_def place_threads_def example_io_def example_pool_def
        EPOLLIN_def EPOLLOUT_def EPOLLHUP_def EPOLLERR_def)
  have io: "dnet_check_io (example_io 0 [example_req]) = 0" "dnet_check_io (example_io 2 []) = 1"
    by (simp_all add: dnet_check_io_words queued_total_def threads_total_def io_places_def
        place_queued_def place_threads_def example_io_def example_pool_def)
  from dnet_io_process_events_admission [OF ev] show ?thesis
    using ev io by simp
qed

text \<open>
  C4, as claimed: a reply whose transaction is not found is dropped with a warning and is
  not dispatched to any work pool. The code does otherwise: for the reply with the unknown
  transaction id 43 the lookup fails, no warning is logged, and the frame is handed to
  \<^verbatim>\<open>dnet_push_request\<close> like every other frame.
\<close>

theorem dnet_schedule_io_stray_reply_counterexample:
  "DNET_FLAGS_REPLY \<in> flags (header (example_reply 43))
   \<and> dnet_trans_search example_st (cmd_trans (header (example_reply 43))) = None
   \<and> res_pushed (dnet_schedule_io (\<lambda>k. 3) 0 200 example_st (example_reply 43))
       = Some ((example_reply 43)\<lparr>recv_time := 15\<rparr>)
   \<and> res_calls (dnet_schedule_io (\<lambda>k. 3) 0 200 example_st (example_reply 43))
       = [DNET_LOG DNET_LOG_INFO ''RECV ACK cmd'', TRANS_LOCK, TRANS_SEARCH 43, TRANS_UNLOCK,
          DNET_LOG DNET_LOG_DEBUG ''backend_id'', PLACE_UNLOCK]"
  by (simp add: dnet_schedule_io_def Let_def dnet_io_req_get_cmd_def
      dnet_update_trans_timestamp_network_def dnet_trans_search_def
      example_reply_def example_req_def example_cmd_def example_st_def)

text \<open>
  C4, amended. For every frame whose header carries \<^verbatim>\<open>DNET_FLAGS_REPLY\<close>,
  \<^verbatim>\<open>dnet_schedule_io\<close> looks the transaction up by id between taking and releasing the
  transaction lock of the connection; if it is found, its timestamp is refreshed and it
  leaves the timer index while the id index keeps it; if it is not found, the connection
  is left as it was. In both cases the frame is then handed to \<^verbatim>\<open>dnet_push_request\<close>
  for the pool of the place selected, and no warning is logged.
\<close>

theorem dnet_schedule_io_reply_demux:
  assumes "DNET_FLAGS_REPLY \<in> flags (header r)"
  shows "(\<forall>t. trans_root st (cmd_trans (header r)) = Some t \<longrightarrow>
            res_st (dnet_schedule_io search_backend n2_err now st r)
              = st\<lparr>trans_root := (trans_root st)(cmd_trans (header r) \<mapsto> t\<lparr>time := now\<rparr>),
                    timer_root := timer_root st - {trans_no t}\<rparr>)
       \<and> (trans_root st (cmd_trans (header r)) = None \<longrightarrow>
            res_st (dnet_schedule_io search_backend n2_err now st r) = st)
       \<and> res_pushed (dnet_schedule_io search_backend n2_err now st r)
            = Some (r\<lparr>recv_time := rcv_finish_ts st - rcv_start_ts st\<rparr>)
       \<and> (\<exists>l m. l \<in> {DNET_LOG_DEBUG, DNET_LOG_INFO}
            \<and> res_calls (dnet_schedule_io search_backend n2_err now st r)
            = [DNET_LOG l m, TRANS_LOCK, TRANS_SEARCH (cmd_trans (header r)), TRANS_UNLOCK,
               DNET_LOG DNET_LOG_DEBUG ''backend_id'', PLACE_UNLOCK])"
  using dnet_schedule_io_reply [OF assms, of search_backend n2_err now st]
  by (auto simp: dnet_update_trans_timestamp_network_reply [OF assms] split: option.splits)

theorem dnet_schedule_io_reply_demux_witness:
  "DNET_FLAGS_REPLY \<in> flags (header (example_reply 42))
   \<and> trans_root (res_st (dnet_schedule_io (\<lambda>k. 3) 0 200 example_st (example_reply 42))) 42
       = Some \<lparr>trans_no = 42, time = 200\<rparr>
   \<and> timer_root (res_st (dnet_schedule_io (\<lambda>k. 3) 0 200 example_st (example_reply 42))) = {}
   \<and> res_pushed (dnet_schedule_io (\<lambda>k. 3) 0 200 example_st (example_reply 42))
       = Some ((example_reply 42)\<lparr>recv_time := 15\<rparr>)
   \<and> res_st (dnet_schedule_io (\<lambda>k. 3) 0 200 example_st (example_reply 43)) = example_st"
  using dnet_schedule_io_reply_demux [of "example_reply 42" example_st "\<lambda>k. 3" 0 200]
    dnet_schedule_io_reply_demux [of "example_reply 43" example_st "\<lambda>k. 3" 0 200]
  by (simp add: example_reply_def example_req_def example_cmd_def example_st_def)



text \<open>
  C6, as claimed: when the count of the send queue, after the decrement, has crossed below
  \<^verbatim>\<open>DNET_SEND_WATERMARK_LOW\<close>, the send condition is broadcast. With the watermark at 100
  and a count of 100, one frame is sent (\<^verbatim>\<open>send_limit\<close> is 1): the count goes from 100,
  at the watermark, to 99, below it, and the call broadcasts nothing, neither in the loop
  nor at its exit.
\<close>

theorem dnet_process_send_single_below_watermark_counterexample:
  "dnet_process_send_single (\<lambda>k. (0, 0)) 1 100 (example_send_st 100 [example_req])
     = (0, example_send_st 99 [],
        [SEND_REQUEST example_req, OUTPUT_STATS_DECREASE, IO_REQ_FREE example_req,
         LOG_SEND_LIMIT 1])
   \<and> send_queue_size (example_send_st 100 [example_req]) = 100
   \<and> send_queue_size (example_send_st 99 []) = 99"
  by (simp add: dnet_process_send_single_def dnet_process_send_loop.simps example_send_st_def
      example_st_def)

text \<open>
  C6, amended. In the send loop, after a frame is fully written and dequeued, the
  low-watermark branch logs and broadcasts the send condition exactly when the count of
  the send queue was positive and equals \<^verbatim>\<open>DNET_SEND_WATERMARK_LOW\<close> after the decrement:
  over a call that frees \<open>m\<close> frames from a count of \<open>q\<close>, the broadcast is issued if and
  only if the watermark is one of the counts \<open>q - 1, \<dots>, q - m\<close> reached by a decrement
  (none of them negative).
\<close>

theorem dnet_process_send_single_low_watermark:
  assumes "dnet_process_send_single send send_limit low st = (err, st', calls)"
  shows "LOW_WATERMARK_BROADCAST c \<in> set calls \<longleftrightarrow>
           c = low \<and> 0 \<le> low
           \<and> send_queue_size st - int (length (freed_of calls)) \<le> low
           \<and> low < send_queue_size st"
proof -
  obtain calls0 where l: "dnet_process_send_loop send send_limit low 0 0 st = (err, st', calls0)"
    and f: "freed_of calls = freed_of calls0"
    and w: "\<forall>c. LOW_WATERMARK_BROADCAST c \<in> set calls \<longleftrightarrow> LOW_WATERMARK_BROADCAST c \<in> set calls0"
    using freed_of_single [OF assms] by blast
  show ?thesis
    using dnet_process_send_loop_watermark [OF l, of c] f w by simp
qed

theorem dnet_process_send_single_low_watermark_witness:
  "dnet_process_send_single (\<lambda>k. if k = 0 then (0, 0) else (- EAGAIN, 7)) 0 100
       (example_send_st 101 [example_req, example_reply 4])
     = (- EAGAIN, (example_send_st 100 [example_reply 4])\<lparr>send_offset := 7\<rparr>,
        [SEND_REQUEST example_req, OUTPUT_STATS_DECREASE, LOW_WATERMARK_BROADCAST 100,
         IO_REQ_FREE example_req, SEND_REQUEST (example_reply 4), EXIT_BROADCAST])
   \<and> LOW_WATERMARK_BROADCAST 100 \<in> set
        [SEND_REQUEST example_req, OUTPUT_STATS_DECREASE, LOW_WATERMARK_BROADCAST 100,
         IO_REQ_FREE example_req, SEND_REQUEST (example_reply 4), EXIT_BROADCAST]"
proof -
  have ev: "dnet_process_send_single (\<lambda>k. if k = 0 then (0, 0) else (- EAGAIN, 7)) 0 100
       (example_send_st 101 [example_req, example_reply 4])
     = (- EAGAIN, (example_send_st 100 [example_reply 4])\<lparr>send_offset := 7\<rparr>,
        [SEND_REQUEST example_req, OUTPUT_STATS_DECREASE, LOW_WATERMARK_BROADCAST 100,
         IO_REQ_FREE example_req, SEND_REQUEST (example_reply 4), EXIT_BROADCAST])"
    by (simp add: dnet_process_send_single_def dnet_process_send_loop.simps
        example_send_st_def example_st_def EAGAIN_def)
  from dnet_process_send_single_low_watermark [OF ev, of 100] show ?thesis
    using ev by (simp add: example_send_st_def)
qed

text \<open>
  C7. With a nonzero \<^verbatim>\<open>send_limit\<close>, one call of \<^verbatim>\<open>dnet_process_send_single\<close> writes,
  dequeues and frees at most \<^verbatim>\<open>send_limit\<close> frames, taken from the head of the send queue
  in order; and a frame whose send fails with \<^verbatim>\<open>EAGAIN\<close> (after the frames before it were
  sent, the limit not yet reached) is the head of the send queue when the call returns
  \<^verbatim>\<open>-EAGAIN\<close>.
\<close>

theorem dnet_process_send_single_limit:
  assumes "dnet_process_send_single send send_limit low st = (err, st', calls)"
  shows "(send_limit \<noteq> 0 \<longrightarrow> length (freed_of calls) \<le> unat send_limit)
       \<and> send_list st = freed_of calls @ send_list st'
       \<and> (\<forall>pre r post.
            send_list st = pre @ r # post \<and> (\<forall>j < length pre. fst (send j) = 0)
            \<and> fst (send (length pre)) = - EAGAIN
            \<and> (send_limit = 0 \<or> length pre < unat send_limit)
            \<longrightarrow> err = - EAGAIN \<and> send_list st' = r # post \<and> freed_of calls = pre)"
proof -
  obtain calls0 where l: "dnet_process_send_loop send send_limit low 0 0 st = (err, st', calls0)"
    and f: "freed_of calls = freed_of calls0"
    using freed_of_single [OF assms] by blast
  have a: "send_limit \<noteq> 0 \<longrightarrow> length (freed_of calls) \<le> unat send_limit"
    using dnet_process_send_loop_limit [OF l] f by (auto simp: word_neq_0_conv)
  have b: "send_list st = freed_of calls @ send_list st'"
    using dnet_process_send_loop_list [OF l] f by simp
  have c: "err = - EAGAIN \<and> send_list st' = r # post \<and> freed_of calls = pre"
    if "send_list st = pre @ r # post" "\<forall>j < length pre. fst (send j) = 0"
      "fst (send (length pre)) = - EAGAIN" "send_limit = 0 \<or> length pre < unat send_limit"
    for pre r post
    using dnet_process_send_loop_eagain [where k = 0 and counter = 0 and send = send
        and send_limit = send_limit and low = low and e = "- EAGAIN", OF that(1)] that l f
    by (auto simp: EAGAIN_def)
  show ?thesis using a b c by blast
qed

theorem dnet_process_send_single_limit_witness:
  "dnet_process_send_single (\<lambda>k. (0, 0)) 2 100
       (example_send_st 3 [example_req, example_reply 4, example_reply 5])
     = (0, example_send_st 1 [example_reply 5],
        [SEND_REQUEST example_req, OUTPUT_STATS_DECREASE, IO_REQ_FREE example_req,
         SEND_REQUEST (example_reply 4), OUTPUT_STATS_DECREASE, IO_REQ_FREE (example_reply 4),
         LOG_SEND_LIMIT 2])
   \<and> dnet_process_send_single (\<lambda>k. if k = 0 then (0, 0) else (- EAGAIN, 7)) 5 100
       (example_send_st 3 [example_req, example_reply 4])
     = (- EAGAIN, (example_send_st 2 [example_reply 4])\<lparr>send_offset := 7\<rparr>,
        [SEND_REQUEST example_req, OUTPUT_STATS_DECREASE, IO_REQ_FREE example_req,
         SEND_REQUEST (example_reply 4), EXIT_BROADCAST])"
proof -
  have ev1: "dnet_process_send_single (\<lambda>k. (0, 0)) 2 100
       (example_send_st 3 [example_req, example_reply 4, example_reply 5])
     = (0, example_send_st 1 [example_reply 5],
        [SEND_REQUEST example_req, OUTPUT_STATS_DECREASE, IO_REQ_FREE example_req,
         SEND_REQUEST (example_reply 4), OUTPUT_STATS_DECREASE, IO_REQ_FREE (example_reply 4),
         LOG_SEND_LIMIT 2])"
    by (simp add: dnet_process_send_single_def dnet_process_send_loop.simps
        example_send_st_def example_st_def word_le_nat_alt)
  have ev2: "dnet_process_send_single (\<lambda>k. if k = 0 then (0, 0) else (- EAGAIN, 7)) 5 100
       (example_send_st 3 [example_req, example_reply 4])
     = (- EAGAIN, (example_send_st 2 [example_reply 4])\<lparr>send_offset := 7\<rparr>,
        [SEND_REQUEST example_req, OUTPUT_STATS_DECREASE, IO_REQ_FREE example_req,
         SEND_REQUEST (example_reply 4), EXIT_BROADCAST])"
    by (simp add: dnet_process_send_single_def dnet_process_send_loop.simps
        example_send_st_def example_st_def EAGAIN_def word_le_nat_alt)
  from dnet_process_send_single_limit [OF ev1] dnet_process_send_single_limit [OF ev2]
  show ?thesis using ev1 ev2 by simp
qed

text \<open>
  C8. When \<^verbatim>\<open>accept\<close> fails with \<^verbatim>\<open>ECONNABORTED\<close>, \<^verbatim>\<open>EMFILE\<close>, \<^verbatim>\<open>ENOBUFS\<close> or
  \<^verbatim>\<open>ENOMEM\<close>, \<^verbatim>\<open>dnet_state_accept_process\<close> logs the error and returns \<^verbatim>\<open>-EAGAIN\<close>;
  with \<^verbatim>\<open>EAGAIN\<close> or \<^verbatim>\<open>EWOULDBLOCK\<close> it returns \<^verbatim>\<open>-EAGAIN\<close> and logs nothing. In both
  cases the reactor loop neither resets the listening connection nor leaves the loop: it
  goes on to the next event.
\<close>

theorem dnet_state_accept_process_recoverable:
  assumes "accept_cs env < 0"
  shows "(accept_errno env \<in> {ECONNABORTED, EMFILE, ENOBUFS, ENOMEM} \<longrightarrow>
            dnet_state_accept_process env
              = (RETURN (- EAGAIN), [ACCEPT_LOG DNET_LOG_ERROR ''Failed to accept new client'']))
       \<and> (accept_errno env \<in> {EAGAIN, EWOULDBLOCK} \<longrightarrow>
            dnet_state_accept_process env = (RETURN (- EAGAIN), []))
       \<and> (accept_errno env \<in> {ECONNABORTED, EMFILE, ENOBUFS, ENOMEM, EAGAIN, EWOULDBLOCK} \<longrightarrow>
            (\<forall>e. ev_fd e = ev_accept_s e \<and> ev_accept e = env \<longrightarrow>
               dnet_io_process_event e
                 = (True, [ACCEPT_PROCESS (ev_st e) (snd (dnet_state_accept_process env))],
                    CONTINUE)))"
proof -
  have a: "dnet_state_accept_process env
              = (RETURN (- EAGAIN), [ACCEPT_LOG DNET_LOG_ERROR ''Failed to accept new client''])"
    if "accept_errno env \<in> {ECONNABORTED, EMFILE, ENOBUFS, ENOMEM}"
    using that assms
    by (auto simp: dnet_state_accept_process_def Let_def ECONNABORTED_def EMFILE_def
        ENOBUFS_def ENOMEM_def EAGAIN_def EWOULDBLOCK_def)
  have b: "dnet_state_accept_process env = (RETURN (- EAGAIN), [])"
    if "accept_errno env \<in> {EAGAIN, EWOULDBLOCK}"
    using that assms
    by (auto simp: dnet_state_accept_process_def Let_def EWOULDBLOCK_def)
  have c: "dnet_io_process_event e
                 = (True, [ACCEPT_PROCESS (ev_st e) (snd (dnet_state_accept_process env))], CONTINUE)"
    if "accept_errno env \<in> {ECONNABORTED, EMFILE, ENOBUFS, ENOMEM, EAGAIN, EWOULDBLOCK}"
      "ev_fd e = ev_accept_s e" "ev_accept e = env" for e
  proof -
    from that(1) a b obtain log where "dnet_state_accept_process env = (RETURN (- EAGAIN), log)"
      by auto
    with that(2,3) show ?thesis
      by (simp add: dnet_io_process_event_def after_handler_def EAGAIN_def)
  qed
  show ?thesis using a b c by blast
qed

theorem dnet_state_accept_process_recoverable_witness:
  "accept_cs (example_accept_env EMFILE) < 0
   \<and> dnet_state_accept_process (example_accept_env EMFILE)
       = (RETURN (- EAGAIN), [ACCEPT_LOG DNET_LOG_ERROR ''Failed to accept new client''])
   \<and> dnet_state_accept_process (example_accept_env EAGAIN) = (RETURN (- EAGAIN), [])
   \<and> dnet_io_process_event (example_event EPOLLIN 4 4 (example_io 2 []))
       = (True, [ACCEPT_PROCESS 7 [ACCEPT_LOG DNET_LOG_ERROR ''Failed to accept new client'']],
          CONTINUE)"
  using dnet_state_accept_process_recoverable [of "example_accept_env EMFILE"]
    dnet_state_accept_process_recoverable [of "example_accept_env EAGAIN"]
  by (simp add: example_accept_env_def example_event_def)

text \<open>
  C9. \<^verbatim>\<open>dnet_work_pool_stop\<close> is idempotent. On a place whose pool counts the workers
  of its list, with distinct threads, and where the joined flag of a worker tells whether
  its thread has been joined before: after any number of calls, at least one, every
  worker's thread has been joined exactly once, every worker is marked joined, and one
  more call changes nothing.
\<close>

theorem dnet_work_pool_stop_joins_once:
  assumes "pool place = Some p" and "wio_list p = Some ws" and "num p = int (length ws)"
    and "distinct (map tid ws)"
    and "\<forall>w \<in> set ws. count_list joins (tid w) = (if joined w = 0 then 0 else 1)"
  shows "\<exists>place' joins'.
           dnet_work_pool_stop_times (Suc k) (place, joins) = Some (place', joins')
           \<and> (\<forall>w \<in> set ws. count_list joins' (tid w) = 1)
           \<and> map tid (place_workers place') = map tid ws
           \<and> (\<forall>w \<in> set (place_workers place'). joined w \<noteq> 0)
           \<and> dnet_work_pool_stop (place', joins') = Some (place', joins')"
proof -
  let ?place' = "place\<lparr>pool := Some (p\<lparr>wio_list := Some (map mark_joined ws)\<rparr>)\<rparr>"
  let ?joins' = "joins @ map tid (filter (\<lambda>w. joined w = 0) ws)"
  have r: "dnet_work_pool_stop_times (Suc k) (place, joins) = Some (?place', ?joins')"
    using assms(1-3) by (rule dnet_work_pool_stop_times_eq)
  have c: "\<forall>w \<in> set ws. count_list ?joins' (tid w) = 1"
    using assms(5) count_list_unjoined [OF assms(4)] by simp
  have w: "place_workers ?place' = map mark_joined ws"
    by (simp add: place_workers_def)
  have t: "map tid (map mark_joined ws) = map tid ws"
    by (simp add: comp_def)
  have j: "\<forall>w \<in> set (map mark_joined ws). joined w \<noteq> 0"
    by auto
  have i: "dnet_work_pool_stop (?place', ?joins') = Some (?place', ?joins')"
    using dnet_work_pool_stop_times_eq [OF assms(1-3), of 1 joins]
      dnet_work_pool_stop_times_eq [OF assms(1-3), of 0 joins]
    by (simp split: option.splits)
  show ?thesis using r c w t j i by (intro exI [of _ ?place'] exI [of _ ?joins']) simp
qed

theorem dnet_work_pool_stop_joins_once_witness:
  "dnet_work_pool_stop_times (Suc (Suc (Suc 0)))
      (\<lparr>pool = Some ((example_pool 2 [])\<lparr>wio_list := Some [example_wio 0 100, example_wio 1 101]\<rparr>)\<rparr>, [])
    = Some (\<lparr>pool = Some ((example_pool 2 [])
               \<lparr>wio_list := Some [(example_wio 0 100)\<lparr>joined := 1\<rparr>, (example_wio 1 101)\<lparr>joined := 1\<rparr>]\<rparr>)\<rparr>,
            [100, 101])
   \<and> count_list [100, 101] (tid (example_wio 0 100)) = 1
   \<and> count_list [100, 101] (tid (example_wio 1 101)) = 1"
proof -
  let ?ws = "[example_wio 0 100, example_wio 1 101]"
  let ?p = "(example_pool 2 [])\<lparr>wio_list := Some ?ws\<rparr>"
  have ev: "dnet_work_pool_stop_times (Suc (Suc (Suc 0))) (\<lparr>pool = Some ?p\<rparr>, [])
    = Some (\<lparr>pool = Some ((example_pool 2 [])
               \<lparr>wio_list := Some [(example_wio 0 100)\<lparr>joined := 1\<rparr>, (example_wio 1 101)\<lparr>joined := 1\<rparr>]\<rparr>)\<rparr>,
            [100, 101])"
    by (simp add: dnet_work_pool_stop_def dnet_work_pool_stop_loop.simps example_pool_def example_wio_def)
  have "\<exists>place' joins'.
           dnet_work_pool_stop_times (Suc (Suc (Suc 0))) (\<lparr>pool = Some ?p\<rparr>, []) = Some (place', joins')
           \<and> (\<forall>w \<in> set ?ws. count_list joins' (tid w) = 1)
           \<and> map tid (place_workers place') = map tid ?ws
           \<and> (\<forall>w \<in> set (place_workers place'). joined w \<noteq> 0)
           \<and> dnet_work_pool_stop (place', joins') = Some (place', joins')"
    by (rule dnet_work_pool_stop_joins_once [of "\<lparr>pool = Some ?p\<rparr>" ?p ?ws "[]" "Suc (Suc 0)"])
      (simp_all add: example_pool_def example_wio_def)
  then have "\<forall>w \<in> set ?ws. count_list [100, 101] (tid w) = 1"
    unfolding ev by blast
  then show ?thesis using ev by simp
qed

text \<open>
  C10. \<^verbatim>\<open>dnet_shuffle_epoll_events\<close> permutes its input: whatever \<^verbatim>\<open>rand()\<close> returns
  (values between 0 and \<^verbatim>\<open>RAND_MAX\<close>), every index stays inside the first \<open>sz\<close> elements,
  the multiset of the events after the call is the multiset before it, the elements
  beyond \<open>sz\<close> are untouched, and an array of size less than 1 is left unchanged.
\<close>


theorem dnet_shuffle_epoll_events_permutation:
  assumes "\<forall>k. 0 \<le> rnd k \<and> rnd k \<le> rand_max" and "sz \<le> int (length evs)"
  shows "\<exists>evs'. dnet_shuffle_epoll_events rand_max rnd evs sz = Some evs'
           \<and> mset evs' = mset evs
           \<and> mset (take (nat sz) evs') = mset (take (nat sz) evs)
           \<and> drop (nat sz) evs' = drop (nat sz) evs
           \<and> (sz < 1 \<longrightarrow> evs' = evs)"
proof (cases "sz < 1")
  case True
  then show ?thesis by (simp add: dnet_shuffle_epoll_events_def)
next
  case False
  obtain evs' where r: "dnet_shuffle_loop rand_max rnd sz 0 evs = Some evs'"
      "mset (take (nat sz) evs') = mset (take (nat sz) evs)"
      "drop (nat sz) evs' = drop (nat sz) evs"
    using dnet_shuffle_loop_perm[OF assms, of 0] by auto
  have "mset evs' = mset (take (nat sz) evs') + mset (drop (nat sz) evs')"
    by (metis append_take_drop_id mset_append)
  also have "\<dots> = mset (take (nat sz) evs) + mset (drop (nat sz) evs)"
    using r by simp
  also have "\<dots> = mset evs"
    by (metis append_take_drop_id mset_append)
  finally show ?thesis using False r by (simp add: dnet_shuffle_epoll_events_def)
qed

theorem dnet_shuffle_epoll_events_permutation_witness:
  "dnet_shuffle_epoll_events 2147483647 (\<lambda>k. 1500000000) [10, 20, 30 :: nat] 3 = Some [30, 10, 20]
   \<and> mset [30, 10, 20 :: nat] = mset [10, 20, 30]"
  using dnet_shuffle_epoll_events_permutation[of "\<lambda>k. 1500000000" 2147483647 3 "[10, 20, 30 :: nat]"]
  by (simp add: dnet_shuffle_epoll_events_def dnet_shuffle_loop.simps c_div_def)


end
